(* ===== verification/Prelude.thy ===== *)
theory Prelude
  imports Main
begin

text \<open>
  Shared vocabulary of the development: the names of the model's basic types, the
  collections of facts the component proofs hand to the simplifier, and the generic
  lemmas on lists of records keyed by an identity that several components use
  (Blender's data collections are such lists).
\<close>

type_synonym ident = nat
type_synonym path = string

text \<open>
  The errors \<open>argparse\<close> reports through \<open>parser.error\<close> (a usage message on stderr
  and exit status 2), each with the parts of its message: an ambiguous abbreviation and
  the option strings it matches, an option without its value, an explicit value given to
  an option that takes none, the required arguments missing, the tokens left over.
  An action is named as \<open>argparse\<close> names it: its option strings joined by a slash, or
  its destination for a positional.
\<close>

datatype arg_error =
    Ambiguous string "string list"
  | ExpectedOne string
  | IgnoredExplicit string string
  | RequiredMissing "string list"
  | Unrecognized "string list"

text \<open>
  The ways a run of \<open>fbx_to_glb.py\<close> ends early: the \<open>SystemExit\<close>s it raises
  (lines 39, 42, 50, 118) and those of \<open>argparse\<close> (help and usage errors), the
  \<open>TypeError\<close> of \<open>os.path.abspath\<close> on a value that is not a string, and the
  exceptions of the calls it makes into the host and the operating system (an operator
  that fails, a reference to a removed object, \<open>os.makedirs\<close>, the exporter).
\<close>

datatype run_error =
    NoSeparator
  | ArgsHelp
  | ArgsInvalid arg_error
  | ArgTypeError
  | MissingModel path
  | MissingAnim path
  | NoArmature
  | ImportFailed path
  | ArmatureRemoved
  | MakedirsFailed path
  | ExportFailed path

named_theorems scene_ops "definitions of the Blender scene operations, unfolded together"
named_theorems ids_simps "how the scene operations act on the identities of the scene"

subsection \<open>Lists of records keyed by an identity\<close>

text \<open>
  A keyed update touches only the element with the given identity; the identities of
  the list are unchanged when the update keeps the key.
\<close>

definition upd_where :: "('a \<Rightarrow> ident) \<Rightarrow> ident \<Rightarrow> ('a \<Rightarrow> 'a) \<Rightarrow> 'a list \<Rightarrow> 'a list" where
  "upd_where key i f xs = map (\<lambda>x. if key x = i then f x else x) xs"

lemma upd_where_keys [simp]:
  "(\<And>x. key (f x) = key x) \<Longrightarrow> map key (upd_where key i f xs) = map key xs"
  by (induction xs) (auto simp: upd_where_def)

lemma upd_where_length [simp]: "length (upd_where key i f xs) = length xs"
  by (simp add: upd_where_def)

lemma upd_where_other:
  "i \<notin> set (map key xs) \<Longrightarrow> upd_where key i f xs = xs"
  by (induction xs) (auto simp: upd_where_def)

lemma filter_upd_where_notin:
  "i \<notin> K \<Longrightarrow> (\<And>x. key (f x) = key x) \<Longrightarrow>
   filter (\<lambda>x. key x \<in> K) (upd_where key i f xs) = filter (\<lambda>x. key x \<in> K) xs"
  by (induction xs) (auto simp: upd_where_def)

lemma filter_keys_all:
  "set (map key xs) \<subseteq> K \<Longrightarrow> filter (\<lambda>x. key x \<in> K) xs = xs"
  by (induction xs) auto

lemma filter_keys_none:
  "set (map key xs) \<inter> K = {} \<Longrightarrow> filter (\<lambda>x. key x \<in> K) xs = []"
  by (induction xs) auto

lemma filter_keys_compl:
  "filter (\<lambda>x. key x \<notin> K) (filter (\<lambda>x. key x \<in> K) xs) = []"
  by (induction xs) auto

lemma length_filter_keys_split:
  "length xs = length (filter (\<lambda>x. key x \<in> K) xs) + length (filter (\<lambda>x. key x \<notin> K) xs)"
  by (induction xs) auto

lemma set_map_filter_keys:
  "set (map key (filter (\<lambda>x. key x \<in> K) xs)) = set (map key xs) \<inter> K"
  by (induction xs) auto

lemma distinct_map_filter [intro]:
  "distinct (map key xs) \<Longrightarrow> distinct (map key (filter P xs))"
  by (induction xs) auto

lemma filter_map_if_outside:
  "(\<And>x. key (f x) = key x) \<Longrightarrow>
   filter (\<lambda>x. key x \<notin> K) (map (\<lambda>x. if key x \<in> K then f x else x) xs) = filter (\<lambda>x. key x \<notin> K) xs"
  by (induction xs) auto

lemma filter_map_if_inside:
  "(\<And>x. key (f x) = key x) \<Longrightarrow>
   filter (\<lambda>x. key x \<in> K) (map (\<lambda>x. if key x \<in> K then f x else x) xs) =
   map f (filter (\<lambda>x. key x \<in> K) xs)"
  by (induction xs) auto

lemma filter_keys_diff:
  "set (map key xs) \<subseteq> S \<Longrightarrow> filter (\<lambda>x. key x \<notin> S - A) xs = filter (\<lambda>x. key x \<in> A) xs"
  "set (map key xs) \<subseteq> S \<Longrightarrow> filter (\<lambda>x. key x \<in> S - A) xs = filter (\<lambda>x. key x \<notin> A) xs"
  by (auto intro: filter_cong)

lemma filter_keys_mono:
  "A \<subseteq> A1 \<Longrightarrow> filter (\<lambda>x. key x \<in> A) (filter (\<lambda>x. key x \<in> A1) xs) = filter (\<lambda>x. key x \<in> A) xs"
  by (induction xs) auto

lemma distinct_key_eq:
  "distinct (map key xs) \<Longrightarrow> x \<in> set xs \<Longrightarrow> y \<in> set xs \<Longrightarrow> key x = key y \<Longrightarrow> x = y"
  by (metis distinct_map inj_onD)

subsection \<open>Lists and indices\<close>

lemma length_takeWhile_less: "\<exists>x\<in>set xs. \<not> P x \<Longrightarrow> length (takeWhile P xs) < length xs"
  by (induction xs) auto

lemma takeWhile_neq_append [simp]:
  "c \<notin> set ys \<Longrightarrow> takeWhile (\<lambda>x. x \<noteq> c) (ys @ zs) = ys @ takeWhile (\<lambda>x. x \<noteq> c) zs"
  by (rule takeWhile_append2) auto

lemma length_if_single: "length ((if b then [x] else []) @ ys) = (if b then 1 else 0) + length ys"
  by simp

lemma if_either: "(if b then x else y) = x \<or> (if b then x else y) = y"
  by simp

lemma length_rev_dropWhile_rev: "length (rev (dropWhile P (rev xs))) \<le> length xs"
  by (metis length_dropWhile_le length_rev)

lemma ex_from_Suc:
  "fi < di \<Longrightarrow> (\<exists>k. fi \<le> k \<and> k < di \<and> P k) \<longleftrightarrow> P fi \<or> (\<exists>k. Suc fi \<le> k \<and> k < di \<and> P k)"
proof
  assume "\<exists>k. fi \<le> k \<and> k < di \<and> P k"
  then obtain k where "fi \<le> k" "k < di" "P k" by blast
  then show "P fi \<or> (\<exists>k. Suc fi \<le> k \<and> k < di \<and> P k)"
    by (cases "k = fi") auto
next
  assume "fi < di" "P fi \<or> (\<exists>k. Suc fi \<le> k \<and> k < di \<and> P k)"
  then show "\<exists>k. fi \<le> k \<and> k < di \<and> P k" by (auto intro: Suc_leD)
qed

text \<open>The first index of \<open>[i..<n]\<close> a filter keeps, and the ones before it.\<close>

lemma filter_upt_Cons: "filter P [i..<n] = x # r \<Longrightarrow> i \<le> x \<and> x < n"
  by (metis atLeastLessThan_iff filter_is_subset list.set_intros(1) set_upt subsetD)

lemma filter_upt_first:
  "filter P [i..<n] = x # r \<Longrightarrow> i \<le> j \<Longrightarrow> j < x \<Longrightarrow> \<not> P j"
proof (induction "n - i" arbitrary: i)
  case 0
  then show ?case by simp
next
  case (Suc d)
  then have i: "i < n" by simp
  then have u: "[i..<n] = i # [Suc i..<n]" by (rule upt_conv_Cons)
  show ?case
  proof (cases "P i")
    case True
    then show ?thesis using Suc.prems u by auto
  next
    case False
    then have f: "filter P [Suc i..<n] = x # r" using Suc.prems u by simp
    show ?thesis
    proof (cases "j = i")
      case True
      then show ?thesis using False by simp
    next
      case False
      then show ?thesis using Suc.hyps(1)[of "Suc i"] Suc.hyps(2) f Suc.prems by simp
    qed
  qed
qed

lemma in_concat_map: "x \<in> set (f a) \<Longrightarrow> a \<in> set L \<Longrightarrow> x \<in> set (concat (map f L))"
  by auto

end
