(* ===== verification/Scene.thy ===== *)
theory Scene
  imports Prelude
begin

text \<open>
  The Scene State of the pipeline: Blender's \<open>bpy.data.objects\<close> and
  \<open>bpy.data.actions\<close> as ordered lists of records, each with the identity Python's
  sets compare by. An object carries its type (\<open>o.type\<close>), its optional animation
  data (\<open>o.animation_data\<close>, whose \<open>action\<close> is the bound clip or \<open>None\<close>) and its
  selection flag. The operators the script calls on it are defined here: the factory
  reset, \<open>select_all(action="DESELECT")\<close>, \<open>o.select_set(True)\<close> and
  \<open>object.delete(use_global=False)\<close>. The FBX importer is the host's; its
  contract (what an import may do to the scene) is \<open>import_extends\<close>.
\<close>

datatype obj_type = MESH | ARMATURE | EMPTY | OTHER

record anim_data =
  ad_action :: "ident option"

record bobject =
  ob_id :: ident
  ob_name :: string
  ob_type :: obj_type
  ob_anim :: "anim_data option"
  ob_select :: bool

record baction =
  act_id :: ident
  act_name :: string

record scene =
  objects :: "bobject list"
  actions :: "baction list"

text \<open>\<open>bpy.ops.wm.read_factory_settings(use_empty=True)\<close>: the empty scene.\<close>

definition empty_scene :: scene where
  "empty_scene = \<lparr>objects = [], actions = []\<rparr>"

subsection \<open>Snapshots\<close>

text \<open>\<open>set(bpy.data.objects)\<close> and \<open>set(bpy.data.actions)\<close>: the identities present.\<close>

definition object_ids :: "scene \<Rightarrow> ident set" where
  "object_ids s = set (map ob_id (objects s))"

definition action_ids :: "scene \<Rightarrow> ident set" where
  "action_ids s = set (map act_id (actions s))"

text \<open>Identities are unique within a session.\<close>

definition wf_scene :: "scene \<Rightarrow> bool" where
  "wf_scene s \<longleftrightarrow> distinct (map ob_id (objects s)) \<and> distinct (map act_id (actions s))"

text \<open>An object with its selection flag cleared: selection is not part of the content.\<close>

definition unsel :: "bobject \<Rightarrow> bobject" where
  "unsel ob = ob\<lparr>ob_select := False\<rparr>"

subsection \<open>The selection and deletion operators\<close>

definition select_all_deselect :: "scene \<Rightarrow> scene" where
  "select_all_deselect s = s\<lparr>objects := map unsel (objects s)\<rparr>"

definition select_set :: "ident \<Rightarrow> bool \<Rightarrow> scene \<Rightarrow> scene" where
  "select_set i b s = s\<lparr>objects := upd_where ob_id i (\<lambda>ob. ob\<lparr>ob_select := b\<rparr>) (objects s)\<rparr>"

text \<open>\<open>bpy.ops.object.delete(use_global=False)\<close> removes the selected objects.\<close>

definition object_delete :: "scene \<Rightarrow> scene" where
  "object_delete s = s\<lparr>objects := filter (\<lambda>ob. \<not> ob_select ob) (objects s)\<rparr>"

declare empty_scene_def [scene_ops] object_ids_def [scene_ops] action_ids_def [scene_ops]
  select_all_deselect_def [scene_ops] select_set_def [scene_ops] object_delete_def [scene_ops]

subsection \<open>The importer's contract\<close>

text \<open>
  What \<open>bpy.ops.import_scene.fbx\<close> may do to the scene, as the merge relies on it:
  the result has unique identities; the objects present before are still there, in
  the same order and with the same content, except that their selection may change
  (the importer selects what it creates); the actions present before are unchanged.
  New objects and actions may be inserted anywhere.
\<close>

definition import_extends :: "scene \<Rightarrow> scene \<Rightarrow> bool" where
  "import_extends s s' \<longleftrightarrow>
     wf_scene s' \<and>
     map unsel (filter (\<lambda>ob. ob_id ob \<in> object_ids s) (objects s')) = map unsel (objects s) \<and>
     filter (\<lambda>a. act_id a \<in> action_ids s) (actions s') = actions s"

subsection \<open>Facts about the operators\<close>

lemma unsel_ids [simp]: "ob_id (unsel ob) = ob_id ob" and unsel_idem [simp]: "unsel (unsel ob) = unsel ob"
  and unsel_select [simp]: "ob_select (unsel ob) = False"
  by (simp_all add: unsel_def)

lemma unsel_set_select [simp]: "unsel (ob\<lparr>ob_select := b\<rparr>) = unsel ob"
  by (simp add: unsel_def)

lemma object_ids_select_all_deselect [ids_simps]:
  "object_ids (select_all_deselect s) = object_ids s"
  by (simp add: scene_ops comp_def)

lemma select_set_objects [ids_simps]:
  "map ob_id (objects (select_set i b s)) = map ob_id (objects s)"
  by (simp add: scene_ops)

lemma actions_select_ops [simp]:
  "actions (select_all_deselect s) = actions s"
  "actions (select_set i b s) = actions s"
  "actions (object_delete s) = actions s"
  by (simp_all add: scene_ops)

lemma wf_scene_empty [simp]: "wf_scene empty_scene"
  by (simp add: wf_scene_def empty_scene_def)

lemma import_extends_wf: "import_extends s s' \<Longrightarrow> wf_scene s'"
  by (simp add: import_extends_def)

lemma import_extends_object_ids: "import_extends s s' \<Longrightarrow> object_ids s \<subseteq> object_ids s'"
proof -
  assume h: "import_extends s s'"
  then have "map ob_id (map unsel (filter (\<lambda>ob. ob_id ob \<in> object_ids s) (objects s')))
           = map ob_id (map unsel (objects s))"
    by (simp add: import_extends_def)
  then have "map ob_id (filter (\<lambda>ob. ob_id ob \<in> object_ids s) (objects s')) = map ob_id (objects s)"
    by (simp add: comp_def)
  then show ?thesis
    by (metis object_ids_def filter_is_subset image_mono list.set_map)
qed

lemma import_extends_action_ids: "import_extends s s' \<Longrightarrow> action_ids s \<subseteq> action_ids s'"
  unfolding import_extends_def action_ids_def
  by (metis filter_is_subset image_mono list.set_map)

end
