(* ===== verification/PyLib.thy ===== *)
theory PyLib
  imports Prelude
begin

text \<open>
  The Python library calls the script makes on strings and paths, written out as
  their CPython definitions compute them on POSIX: \<open>str.lower\<close> (on ASCII),
  \<open>str.startswith\<close>, \<open>str.rfind\<close>, \<open>str.split\<close>/\<open>str.join\<close>, and
  \<open>posixpath.basename\<close>, \<open>splitext\<close>, \<open>dirname\<close>, \<open>join\<close>, \<open>normpath\<close> and
  \<open>abspath\<close>. They are used by the clip disambiguator (the file stem of
  \<open>fbx_to_glb.py\<close> line 67) and by the driver (lines 34--36 and 93).
\<close>

subsection \<open>Strings\<close>

text \<open>
  \<open>str.lower\<close> on ASCII: an upper-case letter (65--90) gets bit 5 set, every other
  character is unchanged. Python's Unicode case mapping beyond ASCII is not modelled.
\<close>

definition lower_char :: "char \<Rightarrow> char" where
  "lower_char c = (case c of Char b0 b1 b2 b3 b4 b5 b6 b7 \<Rightarrow>
     if 65 \<le> (of_char c :: nat) \<and> (of_char c :: nat) \<le> 90
     then Char b0 b1 b2 b3 b4 True b6 b7 else c)"

definition py_lower :: "string \<Rightarrow> string" where
  "py_lower s = map lower_char s"

definition startswith :: "string \<Rightarrow> string \<Rightarrow> bool" where
  "startswith s p \<longleftrightarrow> take (length p) s = p"

text \<open>\<open>str.rfind\<close>: the index of the last occurrence, or \<open>-1\<close>.\<close>

fun rfind_from :: "char \<Rightarrow> string \<Rightarrow> nat \<Rightarrow> int \<Rightarrow> int" where
  "rfind_from c [] i r = r"
| "rfind_from c (x # xs) i r = rfind_from c xs (Suc i) (if x = c then int i else r)"

definition rfind :: "char \<Rightarrow> string \<Rightarrow> int" where
  "rfind c s = rfind_from c s 0 (-1)"

text \<open>\<open>str.split(sep)\<close> with a one-character separator, and \<open>sep.join\<close>.\<close>

fun split_on :: "char \<Rightarrow> string \<Rightarrow> string list" where
  "split_on c [] = [[]]"
| "split_on c (x # xs) =
     (let r = split_on c xs in if x = c then [] # r else (x # hd r) # tl r)"

fun join_with :: "string \<Rightarrow> string list \<Rightarrow> string" where
  "join_with sep [] = []"
| "join_with sep [w] = w"
| "join_with sep (w # ws) = w @ sep @ join_with sep ws"

subsection \<open>Paths\<close>

text \<open>
  \<open>posixpath.splitext\<close> (\<open>genericpath._splitext\<close>): the extension starts at the
  last dot after the last slash, unless every character between the slash and that dot
  is a dot (a leading-dot file name such as \<open>.bashrc\<close> has no extension). The
  \<^verbatim>\<open>while filenameIndex < dotIndex\<close> loop is \<open>has_non_dot\<close>.
\<close>

function has_non_dot :: "string \<Rightarrow> nat \<Rightarrow> nat \<Rightarrow> bool" where
  "has_non_dot p fi di =
     (if fi < di then (if p ! fi \<noteq> CHR ''.'' then True else has_non_dot p (Suc fi) di)
      else False)"
  by pat_completeness auto
termination
  by (relation "measure (\<lambda>(p, fi, di). di - fi)") auto

declare has_non_dot.simps [simp del]

definition splitext :: "string \<Rightarrow> string \<times> string" where
  "splitext p =
     (let sep_index = rfind CHR ''/'' p; dot_index = rfind CHR ''.'' p in
      if sep_index < dot_index \<and> has_non_dot p (nat (sep_index + 1)) (nat dot_index)
      then (take (nat dot_index) p, drop (nat dot_index) p)
      else (p, []))"

text \<open>\<open>posixpath.basename\<close>: everything after the last slash.\<close>

definition basename :: "string \<Rightarrow> string" where
  "basename p = drop (nat (rfind CHR ''/'' p + 1)) p"

text \<open>
  \<open>posixpath.dirname\<close>: everything up to the last slash, with trailing slashes
  removed unless the head consists of slashes only.
\<close>

definition dirname :: "string \<Rightarrow> string" where
  "dirname p =
     (let head = take (nat (rfind CHR ''/'' p + 1)) p in
      if head \<noteq> [] \<and> (\<exists>c\<in>set head. c \<noteq> CHR ''/'')
      then rev (dropWhile (\<lambda>c. c = CHR ''/'') (rev head)) else head)"

text \<open>\<open>posixpath.split\<close>, with the second split \<open>makedirs\<close> makes for a trailing slash.\<close>

definition split_head :: "path \<Rightarrow> path" where
  "split_head name = (if basename name = [] then dirname (dirname name) else dirname name)"

definition split_tail :: "path \<Rightarrow> path" where
  "split_tail name = (if basename name = [] then basename (dirname name) else basename name)"

text \<open>\<open>posixpath.join(a, b)\<close> for two components.\<close>

definition path_join :: "string \<Rightarrow> string \<Rightarrow> string" where
  "path_join a b =
     (if startswith b ''/'' then b
      else if a = [] \<or> last a = CHR ''/'' then a @ b else a @ ''/'' @ b)"

text \<open>
  \<open>posixpath.normpath\<close>: one step of its loop over the components, then the
  re-assembly with the leading slashes (two are kept, three or more become one).
\<close>

definition norm_step :: "bool \<Rightarrow> string list \<Rightarrow> string \<Rightarrow> string list" where
  "norm_step initial new part =
     (if part = [] \<or> part = ''.'' then new
      else if part \<noteq> ''..'' \<or> (\<not> initial \<and> new = []) \<or> (new \<noteq> [] \<and> last new = ''..'')
      then new @ [part]
      else if new \<noteq> [] then butlast new else new)"

definition normpath :: "string \<Rightarrow> string" where
  "normpath p =
     (if p = [] then ''.'' else
      let initial = (if startswith p ''/''
                     then (if startswith p ''//'' \<and> \<not> startswith p ''///'' then 2 else 1)
                     else (0::nat));
          comps = foldl (norm_step (initial \<noteq> 0)) [] (split_on CHR ''/'' p);
          r = replicate initial CHR ''/'' @ join_with ''/'' comps
      in if r = [] then ''.'' else r)"

text \<open>\<open>posixpath.abspath\<close>, with the working directory as a parameter.\<close>

definition abspath :: "string \<Rightarrow> string \<Rightarrow> string" where
  "abspath cwd p = normpath (if startswith p ''/'' then p else path_join cwd p)"

subsection \<open>Facts about the string primitives\<close>

lemma lower_char_idem [simp]: "lower_char (lower_char c) = lower_char c"
  by (cases c) (auto simp: lower_char_def)

lemma lower_char_underscore [simp]: "lower_char CHR ''_'' = CHR ''_''"
  by (simp add: lower_char_def)

lemma py_lower_append [simp]: "py_lower (a @ b) = py_lower a @ py_lower b"
  by (simp add: py_lower_def)

lemma py_lower_length [simp]: "length (py_lower s) = length s"
  by (simp add: py_lower_def)

lemma startswith_append [simp]: "startswith (p @ q) p"
  by (simp add: startswith_def)

lemma startswith_iff: "startswith s p \<longleftrightarrow> (\<exists>q. s = p @ q)"
  unfolding startswith_def by (metis append_eq_conv_conj)

lemma rfind_from_eq:
  "rfind_from c xs i r =
     (if c \<in> set xs then int (i + length xs - 1 - length (takeWhile (\<lambda>x. x \<noteq> c) (rev xs)))
      else r)"
proof (induction xs arbitrary: i r)
  case Nil
  then show ?case by simp
next
  case (Cons x xs)
  show ?case
  proof (cases "c \<in> set xs")
    case True
    then have "length (takeWhile (\<lambda>y. y \<noteq> c) (rev xs)) < length xs"
      using length_takeWhile_less[of "rev xs"] by simp
    with True show ?thesis by (simp add: Cons.IH)
  next
    case False
    then show ?thesis by (cases "x = c") (simp_all add: Cons.IH)
  qed
qed

lemma rfind_notin: "c \<notin> set s \<Longrightarrow> rfind c s = -1"
  by (simp add: rfind_def rfind_from_eq)

lemma rfind_last: "c \<notin> set ys \<Longrightarrow> rfind c (xs @ c # ys) = int (length xs)"
  by (simp add: rfind_def rfind_from_eq)

lemma basename_append: "CHR ''/'' \<notin> set n \<Longrightarrow> basename (d @ CHR ''/'' # n) = n"
proof -
  assume "CHR ''/'' \<notin> set n"
  then have "rfind CHR ''/'' (d @ CHR ''/'' # n) = int (length d)"
    by (rule rfind_last)
  moreover have "nat (int (length d) + 1) = Suc (length d)" by simp
  ultimately show ?thesis by (simp add: basename_def)
qed

lemma basename_plain: "CHR ''/'' \<notin> set n \<Longrightarrow> basename n = n"
  by (simp add: basename_def rfind_notin)

lemma has_non_dot_iff:
  "di \<le> length p \<Longrightarrow> has_non_dot p fi di \<longleftrightarrow> (\<exists>k. fi \<le> k \<and> k < di \<and> p ! k \<noteq> CHR ''.'')"
proof (induction p fi di rule: has_non_dot.induct)
  case (1 p fi di)
  show ?case
  proof (cases "fi < di")
    case True
    then have eq: "has_non_dot p fi di \<longleftrightarrow> p ! fi \<noteq> CHR ''.'' \<or> has_non_dot p (Suc fi) di"
      by (simp add: has_non_dot.simps[of p fi di])
    show ?thesis
    proof (cases "p ! fi \<noteq> CHR ''.''")
      case True
      with \<open>fi < di\<close> eq show ?thesis by blast
    next
      case False
      with \<open>fi < di\<close> "1.IH" "1.prems" have "has_non_dot p (Suc fi) di \<longleftrightarrow>
          (\<exists>k. Suc fi \<le> k \<and> k < di \<and> p ! k \<noteq> CHR ''.'')" by blast
      with eq ex_from_Suc[OF \<open>fi < di\<close>, of "\<lambda>k. p ! k \<noteq> CHR ''.''"] show ?thesis by simp
    qed
  next
    case False
    then show ?thesis by (simp add: has_non_dot.simps[of p fi di])
  qed
qed

lemma has_non_dot_prefix:
  assumes "\<exists>c\<in>set n. c \<noteq> CHR ''.''" shows "has_non_dot (n @ CHR ''.'' # e) 0 (length n)"
proof -
  from assms obtain k where k: "k < length n" "n ! k \<noteq> CHR ''.''"
    by (auto simp: in_set_conv_nth)
  then have "0 \<le> k \<and> k < length n \<and> (n @ CHR ''.'' # e) ! k \<noteq> CHR ''.''"
    by (simp add: nth_append)
  then show ?thesis
    by (subst has_non_dot_iff) auto
qed

lemma length_dirname: "length (dirname p) \<le> min (nat (rfind CHR ''/'' p + 1)) (length p)"
proof -
  let ?h = "take (nat (rfind CHR ''/'' p + 1)) p"
  have le: "length (rev (dropWhile (\<lambda>c. c = CHR ''/'') (rev ?h))) \<le> length ?h"
    by (rule length_rev_dropWhile_rev)
  have "dirname p = rev (dropWhile (\<lambda>c. c = CHR ''/'') (rev ?h)) \<or> dirname p = ?h"
    unfolding dirname_def Let_def by (rule if_either)
  with le have "length (dirname p) \<le> length ?h" by auto
  then show ?thesis by simp
qed

lemma length_dirname_le: "length (dirname p) \<le> length p"
  using length_dirname[of p] by simp

lemma length_dirname_less: "basename p \<noteq> [] \<Longrightarrow> length (dirname p) < length p"
  using length_dirname[of p] by (simp add: basename_def)

lemma length_split_head: "split_tail name \<noteq> [] \<Longrightarrow> length (split_head name) < length name"
proof (cases "basename name = []")
  case True
  moreover assume "split_tail name \<noteq> []"
  ultimately have "length (dirname (dirname name)) < length (dirname name)"
    by (simp add: split_tail_def length_dirname_less)
  with True show ?thesis
    using length_dirname_le[of name] by (simp add: split_head_def)
next
  case False
  then show ?thesis by (simp add: split_head_def length_dirname_less)
qed

lemma dirname_append:
  assumes "CHR ''/'' \<notin> set n" "d \<noteq> []" "last d \<noteq> CHR ''/''"
  shows "dirname (d @ CHR ''/'' # n) = d"
proof -
  obtain d' x where dx: "d = d' @ [x]" using assms(2) by (metis rev_exhaust)
  have x: "x \<noteq> CHR ''/''" using assms(3) dx by simp
  have r: "rfind CHR ''/'' (d @ CHR ''/'' # n) = int (length d)" by (rule rfind_last[OF assms(1)])
  have n: "nat (int (length d) + 1) = Suc (length d)" by simp
  have h: "take (Suc (length d)) (d @ CHR ''/'' # n) = d' @ [x, CHR ''/'']" by (simp add: dx)
  show ?thesis using x unfolding dirname_def r n h Let_def by (simp add: dx)
qed

lemma dirname_root_child: "CHR ''/'' \<notin> set n \<Longrightarrow> dirname (CHR ''/'' # n) = ''/''"
  using rfind_last[of "CHR ''/''" n "[]"] by (simp add: dirname_def)

lemma split_on_no_sep: "x \<in> set (split_on c s) \<Longrightarrow> c \<notin> set x"
proof (induction s arbitrary: x)
  case Nil
  then show ?case by simp
next
  case (Cons y s)
  have ne: "split_on c s \<noteq> []" by (cases s) (simp_all add: Let_def)
  show ?case
  proof (cases "y = c")
    case True
    then show ?thesis using Cons by (auto simp: Let_def)
  next
    case False
    have "hd (split_on c s) \<in> set (split_on c s)" "\<forall>z\<in>set (tl (split_on c s)). z \<in> set (split_on c s)"
      using ne by (simp_all add: list.set_sel(2))
    then show ?thesis using Cons False by (auto simp: Let_def)
  qed
qed

lemma split_on_plain: "c \<notin> set w \<Longrightarrow> split_on c w = [w]"
  by (induction w) (auto simp: Let_def)

lemma split_on_append: "c \<notin> set w \<Longrightarrow> split_on c (w @ c # s) = w # split_on c s"
  by (induction w) (auto simp: Let_def)

lemma split_on_join: "\<forall>x\<in>set cs. c \<notin> set x \<Longrightarrow> cs \<noteq> [] \<Longrightarrow> split_on c (join_with [c] cs) = cs"
proof (induction cs)
  case (Cons w cs)
  then show ?case by (cases cs) (simp_all add: split_on_plain split_on_append)
qed simp

end
