(* ===== verification/Disambiguate.thy ===== *)
theory Disambiguate
  imports Scene PyLib
begin

text \<open>
  The Clip Disambiguator, \<open>fbx_to_glb.py\<close> lines 63--71: the actions an import
  created are the actions present after it whose identity was not present before
  (line 64); each of them whose lower-cased name does not start with the lower-cased
  file stem of the source is renamed to \<open>stem_name\<close> (lines 67--71). Python
  iterates \<open>new_actions\<close> in the arbitrary order of a set; the model iterates it in
  the order of \<open>bpy.data.actions\<close>, and \<open>rename_new_actions_eq\<close> shows the
  result is the same for every order (and every repetition) of the list.
\<close>

text \<open>\<open>os.path.splitext(os.path.basename(ap))[0]\<close> (line 67).\<close>

definition file_stem :: "string \<Rightarrow> string" where
  "file_stem ap = fst (splitext (basename ap))"

text \<open>Lines 70--71, on one action.\<close>

definition rename_action :: "string \<Rightarrow> baction \<Rightarrow> baction" where
  "rename_action base a =
     (if \<not> startswith (py_lower (act_name a)) (py_lower base)
      then a\<lparr>act_name := base @ ''_'' @ act_name a\<rparr> else a)"

text \<open>Line 64: \<open>[a for a in after_actions - before_actions if a is not None]\<close>.\<close>

definition new_actions :: "ident set \<Rightarrow> scene \<Rightarrow> ident list" where
  "new_actions before s = [i \<leftarrow> map act_id (actions s). i \<notin> before]"

text \<open>The loop of lines 68--71: each listed action is looked up and renamed in place.\<close>

fun rename_new_actions :: "string \<Rightarrow> ident list \<Rightarrow> scene \<Rightarrow> scene" where
  "rename_new_actions base [] s = s"
| "rename_new_actions base (i # is) s =
     rename_new_actions base is (s\<lparr>actions := upd_where act_id i (rename_action base) (actions s)\<rparr>)"

text \<open>The reference the loop implements: rename every action of a set at once.\<close>

definition rename_all :: "string \<Rightarrow> ident set \<Rightarrow> scene \<Rightarrow> scene" where
  "rename_all base K s =
     s\<lparr>actions := map (\<lambda>a. if act_id a \<in> K then rename_action base a else a) (actions s)\<rparr>"

subsection \<open>The renaming of one action\<close>

lemma rename_action_id [simp]: "act_id (rename_action base a) = act_id a"
  by (simp add: rename_action_def)

lemma rename_action_name:
  "act_name (rename_action base a) =
     (if startswith (py_lower (act_name a)) (py_lower base) then act_name a
      else base @ ''_'' @ act_name a)"
  by (simp add: rename_action_def)

text \<open>After renaming, the lower-cased name starts with the lower-cased stem.\<close>

lemma rename_action_prefixed:
  "startswith (py_lower (act_name (rename_action base a))) (py_lower base)"
  by (simp add: rename_action_name py_lower_def)

text \<open>Renaming one action twice is renaming it once.\<close>

lemma rename_action_idem: "rename_action base (rename_action base a) = rename_action base a"
  using rename_action_prefixed[of base a]
  by (simp add: rename_action_def [of base "rename_action base a"])

subsection \<open>The loop against its reference\<close>

lemma rename_all_upd:
  "rename_all base K (s\<lparr>actions := upd_where act_id i (rename_action base) (actions s)\<rparr>) =
   rename_all base (insert i K) s"
  by (simp add: rename_all_def upd_where_def rename_action_idem)

lemma rename_all_empty [simp]: "rename_all base {} s = s"
  by (simp add: rename_all_def)

text \<open>
  The loop renames exactly the listed actions, each once: its result is the set
  reference applied to the actions the list names.
\<close>

lemma rename_new_actions_eq: "rename_new_actions base is s = rename_all base (set is) s"
proof (induction "is" arbitrary: s)
  case Nil
  then show ?case by simp
next
  case (Cons i "is")
  then show ?case by (simp add: rename_all_upd)
qed

lemma rename_all_action_ids [simp]: "map act_id (actions (rename_all base K s)) = map act_id (actions s)"
  by (simp add: rename_all_def comp_def)

lemma rename_all_objects [simp]: "objects (rename_all base K s) = objects s"
  by (simp add: rename_all_def)

lemma rename_all_outside:
  "filter (\<lambda>a. act_id a \<notin> K) (actions (rename_all base K s)) = filter (\<lambda>a. act_id a \<notin> K) (actions s)"
  by (simp add: rename_all_def filter_map_if_outside)

lemma rename_all_inside:
  "filter (\<lambda>a. act_id a \<in> K) (actions (rename_all base K s)) =
   map (rename_action base) (filter (\<lambda>a. act_id a \<in> K) (actions s))"
  by (simp add: rename_all_def filter_map_if_inside)

subsection \<open>Properties of the loop\<close>

text \<open>
  C4: the renaming loop changes only the names of the listed actions: a listed action
  whose lower-cased name starts with the lower-cased stem keeps its name, any other
  listed action is renamed to \<open>stem_name\<close>, and the identities and the order of the
  actions are kept. Running it a second time changes nothing more, so no clip is ever
  double-prefixed.
\<close>

theorem rename_new_actions_idem:
  "map (\<lambda>a. (act_id a, act_name a)) (actions (rename_new_actions base is s)) =
     map (\<lambda>a. (act_id a,
                if act_id a \<in> set is \<and> \<not> startswith (py_lower (act_name a)) (py_lower base)
                then base @ ''_'' @ act_name a else act_name a)) (actions s) \<and>
   rename_new_actions base is (rename_new_actions base is s) = rename_new_actions base is s"
proof -
  have "rename_all base K (rename_all base K s) = rename_all base K s" for K
    by (simp add: rename_all_def comp_def rename_action_idem if_distrib cong: if_cong)
  moreover have "map (\<lambda>a. (act_id a, act_name a)) (actions (rename_all base K s)) =
     map (\<lambda>a. (act_id a,
                if act_id a \<in> K \<and> \<not> startswith (py_lower (act_name a)) (py_lower base)
                then base @ ''_'' @ act_name a else act_name a)) (actions s)" for K
    by (simp add: rename_all_def rename_action_def)
  ultimately show ?thesis by (simp add: rename_new_actions_eq)
qed

text \<open>
  C5: the order in which Python's set difference hands the new actions to the loop, and
  any repetition, does not matter: two lists with the same elements give the same scene.
\<close>

theorem rename_new_actions_order:
  "set is = set js \<Longrightarrow> rename_new_actions base is s = rename_new_actions base js s"
  by (simp add: rename_new_actions_eq)

subsection \<open>The file stem\<close>

text \<open>
  C10: the stem of \<open>dir/name.ext\<close>, where \<open>ext\<close> has no dot and \<open>name\<close> is not
  made of dots only, is \<open>name\<close>: the directory and the last extension are removed.
\<close>

theorem file_stem_spec:
  assumes "CHR ''/'' \<notin> set n" "CHR ''/'' \<notin> set e" "CHR ''.'' \<notin> set e"
    and "\<exists>c\<in>set n. c \<noteq> CHR ''.''"
  shows "file_stem (d @ CHR ''/'' # n @ CHR ''.'' # e) = n"
proof -
  have b: "basename (d @ CHR ''/'' # n @ CHR ''.'' # e) = n @ CHR ''.'' # e"
    using assms(1,2) by (intro basename_append) simp
  have sep: "rfind CHR ''/'' (n @ CHR ''.'' # e) = -1"
    using assms(1,2) by (intro rfind_notin) simp
  have dot: "rfind CHR ''.'' (n @ CHR ''.'' # e) = int (length n)"
    using assms(3) by (rule rfind_last)
  have "has_non_dot (n @ CHR ''.'' # e) 0 (length n)"
    using assms(4) by (rule has_non_dot_prefix)
  then have "splitext (n @ CHR ''.'' # e) = (n, CHR ''.'' # e)"
    unfolding splitext_def Let_def sep dot by simp
  with b show ?thesis
    by (simp add: file_stem_def)
qed

text \<open>
  C11: a file name whose part before the last dot consists of dots only (such as
  \<open>.walk\<close> or \<open>..fbx\<close>) has no extension for \<open>splitext\<close>: its stem is the whole name.
\<close>

theorem file_stem_dotfile:
  assumes "\<forall>c\<in>set n. c = CHR ''.''" "CHR ''/'' \<notin> set e" "CHR ''.'' \<notin> set e"
  shows "file_stem (d @ CHR ''/'' # n @ CHR ''.'' # e) = n @ CHR ''.'' # e"
proof -
  have n: "CHR ''/'' \<notin> set n" using assms(1) by auto
  have b: "basename (d @ CHR ''/'' # n @ CHR ''.'' # e) = n @ CHR ''.'' # e"
    using n assms(2) by (intro basename_append) simp
  have sep: "rfind CHR ''/'' (n @ CHR ''.'' # e) = -1"
    using n assms(2) by (intro rfind_notin) simp
  have dot: "rfind CHR ''.'' (n @ CHR ''.'' # e) = int (length n)"
    using assms(3) by (rule rfind_last)
  have "\<not> has_non_dot (n @ CHR ''.'' # e) 0 (length n)"
    using assms(1) by (subst has_non_dot_iff) (auto simp: nth_append)
  then have "splitext (n @ CHR ''.'' # e) = (n @ CHR ''.'' # e, [])"
    unfolding splitext_def Let_def sep dot by simp
  with b show ?thesis
    by (simp add: file_stem_def)
qed

end
