(* ===== verification/Cleanup.thy ===== *)
theory Cleanup
  imports Scene
begin

text \<open>
  The Cleanup Stage, \<open>fbx_to_glb.py\<close> lines 73--80: the objects an import created
  are those present after it whose identity was not present before (line 75); when
  there are any, the whole selection is cleared, exactly those objects are selected
  and \<open>object.delete\<close> removes the selection. The theorem \<open>cleanup_exact\<close> shows
  that what survives is exactly the objects present before the import, whatever the
  importer did to the selection.
\<close>

text \<open>Lines 74--75: \<open>list(after_objs - before_objs)\<close>.\<close>

definition new_objects :: "ident set \<Rightarrow> scene \<Rightarrow> ident list" where
  "new_objects before s = [i \<leftarrow> map ob_id (objects s). i \<notin> before]"

text \<open>Lines 78--79: \<open>for o in new_objs: o.select_set(True)\<close>.\<close>

fun select_each :: "ident list \<Rightarrow> scene \<Rightarrow> scene" where
  "select_each [] s = s"
| "select_each (i # is) s = select_each is (select_set i True s)"

text \<open>Lines 76--80.\<close>

definition cleanup_new_objects :: "ident list \<Rightarrow> scene \<Rightarrow> scene" where
  "cleanup_new_objects new_objs s =
     (if new_objs \<noteq> [] then object_delete (select_each new_objs (select_all_deselect s)) else s)"

subsection \<open>The selection loop\<close>

definition mark_selected :: "ident set \<Rightarrow> bobject \<Rightarrow> bobject" where
  "mark_selected K ob = (if ob_id ob \<in> K then ob\<lparr>ob_select := True\<rparr> else ob)"

lemma select_each_objects:
  "objects (select_each is s) = map (mark_selected (set is)) (objects s)"
proof (induction "is" arbitrary: s)
  case Nil
  then show ?case by (simp add: mark_selected_def)
next
  case (Cons i "is")
  then show ?case
    by (simp add: select_set_def upd_where_def mark_selected_def comp_def)
qed

lemma select_each_actions [simp]: "actions (select_each is s) = actions s"
  by (induction "is" arbitrary: s) simp_all

lemma delete_marked:
  "filter (\<lambda>ob. \<not> ob_select ob) (map (mark_selected K \<circ> unsel) xs) =
   map unsel (filter (\<lambda>ob. ob_id ob \<notin> K) xs)"
  by (induction xs) (auto simp: mark_selected_def)

text \<open>The stage on a scene, in one equation: the deselected objects outside the list.\<close>

lemma cleanup_objects:
  "new_objs \<noteq> [] \<Longrightarrow>
   objects (cleanup_new_objects new_objs s) = map unsel (filter (\<lambda>ob. ob_id ob \<notin> set new_objs) (objects s))"
  by (simp add: cleanup_new_objects_def object_delete_def select_each_objects
      select_all_deselect_def delete_marked)

lemma cleanup_actions [simp]: "actions (cleanup_new_objects new_objs s) = actions s"
  by (simp add: cleanup_new_objects_def)

lemma new_objects_set: "set (new_objects before s) = object_ids s - before"
  by (auto simp: new_objects_def object_ids_def)

lemma filter_not_new:
  "filter (\<lambda>ob. ob_id ob \<notin> set (new_objects before s)) (objects s) =
   filter (\<lambda>ob. ob_id ob \<in> before) (objects s)"
  by (rule filter_cong) (auto simp: new_objects_def)

subsection \<open>Exactness\<close>

text \<open>
  The cleanup is exact: after it, the objects of the scene are, in order and with
  their content, exactly those whose identity was present before the import; the
  actions are untouched.
\<close>

lemma cleanup_exact:
  "map unsel (objects (cleanup_new_objects (new_objects before s) s)) =
     map unsel (filter (\<lambda>ob. ob_id ob \<in> before) (objects s)) \<and>
   actions (cleanup_new_objects (new_objects before s) s) = actions s"
proof (cases "new_objects before s = []")
  case True
  then have "filter (\<lambda>ob. ob_id ob \<in> before) (objects s) = objects s"
    by (auto simp: new_objects_def filter_empty_conv intro: filter_True)
  with True show ?thesis by (simp add: cleanup_new_objects_def)
next
  case False
  then show ?thesis
    by (simp add: cleanup_objects filter_not_new comp_def)
qed

end
