(* ===== verification/Binding.thy ===== *)
theory Binding
  imports Scene
begin

text \<open>
  The Binding Finalizer and the choice of the merge target, \<open>fbx_to_glb.py\<close> lines
  47--51 and 85--91: the main armature is the first object of type \<open>ARMATURE\<close>
  after the base import; before export it gets animation data if it has none, and the
  first action of \<open>bpy.data.actions\<close> is bound to it when no action is bound yet.
  The armature is held by reference across the merge loop; if it had been removed,
  reading it would raise \<open>ReferenceError\<close>, the \<open>ArmatureRemoved\<close> branch.
\<close>

text \<open>Line 48.\<close>

definition armatures :: "scene \<Rightarrow> bobject list" where
  "armatures s = [ob \<leftarrow> objects s. ob_type ob = ARMATURE]"

definition find_object :: "ident \<Rightarrow> scene \<Rightarrow> bobject option" where
  "find_object i s = find (\<lambda>ob. ob_id ob = i) (objects s)"

text \<open>Line 87: \<open>main_arm.animation_data_create()\<close>.\<close>

definition anim_data_create :: "bobject \<Rightarrow> bobject" where
  "anim_data_create ob = ob\<lparr>ob_anim := Some \<lparr>ad_action = None\<rparr>\<rparr>"

text \<open>Line 89: \<open>next(iter(bpy.data.actions), None)\<close>.\<close>

definition first_action :: "scene \<Rightarrow> ident option" where
  "first_action s = (case actions s of [] \<Rightarrow> None | a # _ \<Rightarrow> Some (act_id a))"

text \<open>Lines 90--91.\<close>

definition bind_if_unset :: "ident option \<Rightarrow> bobject \<Rightarrow> bobject" where
  "bind_if_unset any ob =
     (case (any, ob_anim ob) of
        (Some a, Some ad) \<Rightarrow>
          if ad_action ad = None then ob\<lparr>ob_anim := Some (ad\<lparr>ad_action := Some a\<rparr>)\<rparr> else ob
      | _ \<Rightarrow> ob)"

text \<open>Lines 86--91 on the armature, given the first action of the scene.\<close>

definition finalize_object :: "ident option \<Rightarrow> bobject \<Rightarrow> bobject" where
  "finalize_object any ob =
     bind_if_unset any (if ob_anim ob = None then anim_data_create ob else ob)"

text \<open>Lines 85--91 on the scene, the armature given by its identity.\<close>

definition finalize_binding :: "ident \<Rightarrow> scene \<Rightarrow> run_error + scene" where
  "finalize_binding arm s =
     (case find_object arm s of
        None \<Rightarrow> Inl ArmatureRemoved
      | Some ob \<Rightarrow>
          Inr (s\<lparr>objects := upd_where ob_id arm (\<lambda>_. finalize_object (first_action s) ob) (objects s)\<rparr>))"

text \<open>The action bound to an object, if it has animation data and a bound action.\<close>

definition bound_action :: "bobject \<Rightarrow> ident option" where
  "bound_action ob = (case ob_anim ob of None \<Rightarrow> None | Some ad \<Rightarrow> ad_action ad)"

subsection \<open>Facts\<close>

lemma find_object_Some:
  "find_object i s = Some ob \<Longrightarrow> ob \<in> set (objects s) \<and> ob_id ob = i"
  by (auto simp: find_object_def dest: find_Some_iff[THEN iffD1] simp: in_set_conv_nth)

lemma find_object_present:
  "i \<in> object_ids s \<Longrightarrow> \<exists>ob. find_object i s = Some ob"
  unfolding find_object_def object_ids_def
  by (cases "find (\<lambda>ob. ob_id ob = i) (objects s)") (auto simp: find_None_iff)

lemma bind_if_unset_fields [simp]:
  "ob_id (bind_if_unset a ob) = ob_id ob" "ob_name (bind_if_unset a ob) = ob_name ob"
  "ob_type (bind_if_unset a ob) = ob_type ob" "ob_select (bind_if_unset a ob) = ob_select ob"
  by (auto simp: bind_if_unset_def split: option.splits)

lemma finalize_object_fields [simp]:
  "ob_id (finalize_object a ob) = ob_id ob" "ob_name (finalize_object a ob) = ob_name ob"
  "ob_type (finalize_object a ob) = ob_type ob" "ob_select (finalize_object a ob) = ob_select ob"
  by (simp_all add: finalize_object_def anim_data_create_def)

lemma finalize_object_bound:
  "bound_action (finalize_object any ob) = (case bound_action ob of None \<Rightarrow> any | Some a \<Rightarrow> Some a)"
  by (auto simp: finalize_object_def bound_action_def bind_if_unset_def anim_data_create_def
      split: option.splits)

lemma finalize_object_anim: "ob_anim (finalize_object any ob) \<noteq> None"
  by (auto simp: finalize_object_def bind_if_unset_def anim_data_create_def split: option.splits)

lemma finalize_binding_found:
  "find_object arm s = Some ob \<Longrightarrow>
   finalize_binding arm s =
     Inr (s\<lparr>objects := upd_where ob_id arm (\<lambda>_. finalize_object (first_action s) ob) (objects s)\<rparr>)"
  by (simp add: finalize_binding_def)

lemma find_upd_where:
  "find (\<lambda>x. key x = i) xs \<noteq> None \<Longrightarrow> key y = i \<Longrightarrow>
   find (\<lambda>x. key x = i) (upd_where key i (\<lambda>_. y) xs) = Some y"
  by (induction xs) (auto simp: upd_where_def)

text \<open>
  C9: when the armature is present, the finalizer succeeds; the scene's actions are
  unchanged; the armature is replaced by a copy with the same identity, name, type and
  selection that has animation data, whose bound action is the one it had, or else the
  first action of \<open>bpy.data.actions\<close> (none if there is none); every other object is
  unchanged.
\<close>

theorem finalize_binding_spec:
  assumes "arm \<in> object_ids s"
  shows "\<exists>ob ob' s'. find_object arm s = Some ob \<and> finalize_binding arm s = Inr s' \<and>
     actions s' = actions s \<and>
     objects s' = map (\<lambda>x. if ob_id x = arm then ob' else x) (objects s) \<and>
     find_object arm s' = Some ob' \<and>
     ob_id ob' = arm \<and> ob_name ob' = ob_name ob \<and> ob_type ob' = ob_type ob \<and>
     ob_select ob' = ob_select ob \<and> ob_anim ob' \<noteq> None \<and>
     bound_action ob' = (case bound_action ob of None \<Rightarrow> first_action s | Some a \<Rightarrow> Some a)"
proof -
  obtain ob where ob: "find_object arm s = Some ob"
    using find_object_present[OF assms] by blast
  have id: "ob_id ob = arm" using find_object_Some[OF ob] by simp
  let ?ob' = "finalize_object (first_action s) ob"
  let ?s' = "s\<lparr>objects := upd_where ob_id arm (\<lambda>_. ?ob') (objects s)\<rparr>"
  have "find_object arm ?s' = Some ?ob'"
    using ob id find_upd_where[of ob_id arm "objects s" ?ob']
    by (simp add: find_object_def)
  moreover have "finalize_binding arm s = Inr ?s'"
    by (rule finalize_binding_found[OF ob])
  ultimately show ?thesis
    using ob id
    by (intro exI[of _ ob] exI[of _ ?ob'] exI[of _ ?s'])
      (simp add: upd_where_def finalize_object_bound finalize_object_anim)
qed

end
