(* ===== verification/Files.thy ===== *)
theory Files
  imports Scene PyLib
begin

text \<open>
  The output side of the driver, \<open>fbx_to_glb.py\<close> lines 93--110: the file system
  as a map from absolute paths to entries, \<open>os.makedirs(dirname or ".",
  exist_ok=True)\<close> as CPython's recursive algorithm over \<open>os.mkdir\<close>, and the
  glTF exporter with the fixed settings the script passes. The exporter itself is the
  host's: it either fails or writes one GLB file that holds the scene and the settings.
  The last sections show that \<open>makedirs\<close> and the export succeed on a normalised path
  whose ancestors are directories or absent, and that \<open>abspath\<close> returns such paths.
\<close>

record export_settings =
  ex_format :: string
  ex_yup :: bool
  ex_apply :: bool
  ex_animations :: bool
  ex_skins :: bool
  ex_morph :: bool
  ex_materials :: string
  ex_colors :: bool
  ex_normals :: bool
  ex_texcoords :: bool
  ex_tangents :: bool
  ex_image_format :: string

text \<open>
  An entry of the file system: a directory, a file whose bytes do not decode as text in
  the locale's encoding (an FBX file, say), a text file with its decoded characters, or
  a GLB file the exporter wrote.
\<close>

datatype node = Dir | Regular | Text string | Glb export_settings scene

type_synonym fs = "path \<Rightarrow> node option"

text \<open>The keyword arguments of \<open>bpy.ops.export_scene.gltf\<close> (lines 96--110).\<close>

definition gltf_settings :: export_settings where
  "gltf_settings =
     \<lparr>ex_format = ''GLB'', ex_yup = True, ex_apply = True, ex_animations = True,
      ex_skins = True, ex_morph = False, ex_materials = ''EXPORT'', ex_colors = True,
      ex_normals = True, ex_texcoords = True, ex_tangents = False, ex_image_format = ''AUTO''\<rparr>"

subsection \<open>os.makedirs\<close>

text \<open>
  \<open>os.mkdir(name)\<close> followed by the \<open>exist_ok\<close> handler of \<open>os.makedirs\<close>: an
  existing directory is accepted, an existing non-directory fails, and a new directory
  needs its parent to be a directory.
\<close>

definition parent_dir :: "path \<Rightarrow> path" where
  "parent_dir name = (let d = dirname name in if d = [] then ''.'' else d)"

definition mkdir_ok :: "fs \<Rightarrow> path \<Rightarrow> fs option" where
  "mkdir_ok fs name =
     (case fs name of
        Some Dir \<Rightarrow> Some fs
      | Some _ \<Rightarrow> None
      | None \<Rightarrow> if fs (parent_dir name) = Some Dir then Some (fs(name \<mapsto> Dir)) else None)"

function makedirs :: "fs \<Rightarrow> path \<Rightarrow> fs option" where
  "makedirs fs name =
     (let head = split_head name; tail = split_tail name in
      if head \<noteq> [] \<and> tail \<noteq> [] \<and> fs head = None then
        (case makedirs fs head of
           None \<Rightarrow> None
         | Some fs1 \<Rightarrow> if tail = ''.'' then Some fs1 else mkdir_ok fs1 name)
      else mkdir_ok fs name)"
  by pat_completeness auto
termination
  by (relation "measure (\<lambda>(fs, name). length name)") (auto simp: length_split_head Let_def)

declare makedirs.simps [simp del]

text \<open>Line 93: the directory the output goes to.\<close>

definition out_dir :: "path \<Rightarrow> path" where
  "out_dir out_path = (let d = dirname out_path in if d = [] then ''.'' else d)"

text \<open>
  Lines 93--110: create the output directory, then let the host's exporter write the
  GLB; \<open>exporter_ok\<close> says whether the exporter succeeds.
\<close>

definition write_output ::
  "(path \<Rightarrow> export_settings \<Rightarrow> scene \<Rightarrow> bool) \<Rightarrow> path \<Rightarrow> scene \<Rightarrow> fs \<Rightarrow> run_error + fs" where
  "write_output exporter_ok out_path s fs =
     (case makedirs fs (out_dir out_path) of
        None \<Rightarrow> Inl (MakedirsFailed (out_dir out_path))
      | Some fs1 \<Rightarrow>
          if exporter_ok out_path gltf_settings s
          then Inr (fs1(out_path \<mapsto> Glb gltf_settings s))
          else Inl (ExportFailed out_path))"

subsection \<open>Normalised absolute paths\<close>

text \<open>
  The absolute path with components \<open>cs\<close>, as \<open>os.path.abspath\<close> returns it: no
  empty, \<open>.\<close> or \<open>..\<close> component and no slash inside one. Its ancestors run from
  the root to the path itself.
\<close>

definition abs_path :: "string list \<Rightarrow> path" where
  "abs_path cs = (if cs = [] then ''/'' else concat (map (\<lambda>c. CHR ''/'' # c) cs))"

definition plain_comp :: "string \<Rightarrow> bool" where
  "plain_comp c \<longleftrightarrow> c \<noteq> [] \<and> CHR ''/'' \<notin> set c \<and> c \<noteq> ''.'' \<and> c \<noteq> ''..''"

definition ancestors :: "string list \<Rightarrow> path list" where
  "ancestors cs = map (\<lambda>k. abs_path (take k cs)) [0..<Suc (length cs)]"

text \<open>A relative path in normal form: leading \<open>..\<close> components, then plain ones.\<close>

definition rel_norm :: "string list \<Rightarrow> bool" where
  "rel_norm cs \<longleftrightarrow> (\<exists>k ps. cs = replicate k ''..'' @ ps \<and> list_all plain_comp ps)"

subsection \<open>Properties of makedirs\<close>

lemma mkdir_ok_Some:
  "mkdir_ok fs name = Some fs' \<Longrightarrow> fs' name = Some Dir \<and> (\<forall>p. fs p \<noteq> None \<longrightarrow> fs' p = fs p) \<and>
     (\<forall>p. fs' p \<noteq> fs p \<longrightarrow> fs' p = Some Dir)"
  by (auto simp: mkdir_ok_def split: option.splits node.splits if_splits)

lemma makedirs_Some:
  "makedirs fs name = Some fs' \<Longrightarrow>
   (\<forall>p. fs p \<noteq> None \<longrightarrow> fs' p = fs p) \<and> (\<forall>p. fs' p \<noteq> fs p \<longrightarrow> fs' p = Some Dir) \<and>
   (split_tail name \<noteq> ''.'' \<longrightarrow> fs' name = Some Dir)"
proof (induction fs name arbitrary: fs' rule: makedirs.induct)
  case (1 fs name)
  show ?case
  proof (cases "split_head name \<noteq> [] \<and> split_tail name \<noteq> [] \<and> fs (split_head name) = None")
    case True
    then obtain fs1 where r: "makedirs fs (split_head name) = Some fs1"
      using "1.prems" by (subst (asm) makedirs.simps) (auto simp: Let_def split: option.splits)
    have ih: "(\<forall>p. fs p \<noteq> None \<longrightarrow> fs1 p = fs p) \<and> (\<forall>p. fs1 p \<noteq> fs p \<longrightarrow> fs1 p = Some Dir)"
      using "1.IH"[OF refl refl True r] by blast
    show ?thesis
    proof (cases "split_tail name = ''.''")
      case t: True
      then have "fs' = fs1" using "1.prems" True r by (subst (asm) makedirs.simps) (simp add: Let_def)
      then show ?thesis using ih t by simp
    next
      case t: False
      then have "mkdir_ok fs1 name = Some fs'" using "1.prems" True r
        by (subst (asm) makedirs.simps) (simp add: Let_def)
      from mkdir_ok_Some[OF this] ih t show ?thesis by metis
    qed
  next
    case False
    then have "mkdir_ok fs name = Some fs'" using "1.prems"
      by (subst (asm) makedirs.simps) (simp only: Let_def if_False)
    from mkdir_ok_Some[OF this] show ?thesis by blast
  qed
qed

text \<open>
  C12: \<open>os.makedirs(d, exist_ok=True)\<close> never changes or removes an existing entry,
  everything it adds is a directory, and on success \<open>d\<close> is a directory (unless its last
  component is \<open>.\<close>, which CPython's algorithm does not create).
\<close>

theorem makedirs_spec:
  "makedirs fs name = Some fs' \<Longrightarrow>
   (\<forall>p. fs p \<noteq> None \<longrightarrow> fs' p = fs p) \<and> (\<forall>p. fs' p \<noteq> fs p \<longrightarrow> fs' p = Some Dir) \<and>
   (split_tail name \<noteq> ''.'' \<longrightarrow> fs' name = Some Dir)"
  by (rule makedirs_Some)

lemma abs_path_ne: "abs_path cs \<noteq> []"
  by (simp add: abs_path_def)

lemma abs_path_snoc:
  "abs_path (cs @ [c]) = (if cs = [] then [] else abs_path cs) @ CHR ''/'' # c"
  by (simp add: abs_path_def)

lemma abs_path_last: "list_all plain_comp cs \<Longrightarrow> cs \<noteq> [] \<Longrightarrow> last (abs_path cs) \<noteq> CHR ''/''"
proof (induction cs rule: rev_induct)
  case (snoc c cs)
  then have "c \<noteq> []" "CHR ''/'' \<notin> set c" by (simp_all add: plain_comp_def)
  then show ?case by (simp add: abs_path_snoc) (metis last_in_set)
qed simp

lemma abs_path_split:
  assumes "list_all plain_comp (cs @ [c])"
  shows "split_head (abs_path (cs @ [c])) = abs_path cs \<and> split_tail (abs_path (cs @ [c])) = c \<and>
    parent_dir (abs_path (cs @ [c])) = abs_path cs"
proof -
  have c: "c \<noteq> []" "CHR ''/'' \<notin> set c" using assms by (simp_all add: plain_comp_def)
  have b: "basename (abs_path (cs @ [c])) = c" using c by (simp add: abs_path_snoc basename_append)
  have d: "dirname (abs_path (cs @ [c])) = abs_path cs"
  proof (cases "cs = []")
    case True
    then show ?thesis using c by (simp add: abs_path_snoc abs_path_def dirname_root_child)
  next
    case False
    have "last (abs_path cs) \<noteq> CHR ''/''" using abs_path_last[OF _ False] assms by simp
    moreover have "abs_path cs \<noteq> []" by (simp add: abs_path_def False)
    ultimately show ?thesis using c False by (simp add: abs_path_snoc dirname_append)
  qed
  show ?thesis using b d c(1) abs_path_ne by (simp add: split_head_def split_tail_def parent_dir_def)
qed


lemma mkdir_ok_live:
  "g name = None \<or> g name = Some Dir \<Longrightarrow> g (parent_dir name) = Some Dir \<Longrightarrow>
   \<exists>g'. mkdir_ok g name = Some g' \<and> g' name = Some Dir \<and> (\<forall>p. g p \<noteq> None \<longrightarrow> g' p = g p)"
  by (auto simp: mkdir_ok_def)

lemma makedirs_live:
  "fs ''/'' = Some Dir \<Longrightarrow> list_all plain_comp cs \<Longrightarrow>
   \<forall>k \<le> length cs. fs (abs_path (take k cs)) = None \<or> fs (abs_path (take k cs)) = Some Dir \<Longrightarrow>
   \<exists>fs'. makedirs fs (abs_path cs) = Some fs' \<and> fs' (abs_path cs) = Some Dir"
proof (induction cs rule: rev_induct)
  case Nil
  have "makedirs fs ''/'' = mkdir_ok fs ''/''"
    by (subst makedirs.simps) (simp add: split_head_def split_tail_def basename_def dirname_def rfind_def)
  then show ?case using Nil.prems(1) by (simp add: abs_path_def mkdir_ok_def)
next
  case (snoc c cs)
  let ?n = "abs_path (cs @ [c])"
  note sp = abs_path_split[OF snoc.prems(2)]
  have c: "c \<noteq> []" "c \<noteq> ''.''" using snoc.prems(2) by (simp_all add: plain_comp_def)
  have pre: "\<forall>k \<le> length cs. fs (abs_path (take k cs)) = None \<or> fs (abs_path (take k cs)) = Some Dir"
    using snoc.prems(3) by (metis le_SucI length_append_singleton take_append take_eq_Nil2 append_Nil2 diff_is_0_eq)
  have top: "fs ?n = None \<or> fs ?n = Some Dir" using snoc.prems(3)[rule_format, of "Suc (length cs)"] by simp
  have cs: "fs (abs_path cs) = None \<or> fs (abs_path cs) = Some Dir" using pre[rule_format, of "length cs"] by simp
  show ?case
  proof (cases "fs (abs_path cs) = None")
    case True
    obtain fs1 where r: "makedirs fs (abs_path cs) = Some fs1" and d: "fs1 (abs_path cs) = Some Dir"
      using snoc.IH[OF snoc.prems(1) _ pre] snoc.prems(2) by auto
    have m: "(\<forall>p. fs p \<noteq> None \<longrightarrow> fs1 p = fs p) \<and> (\<forall>p. fs1 p \<noteq> fs p \<longrightarrow> fs1 p = Some Dir)"
      using makedirs_Some[OF r] by blast
    have "fs1 ?n = None \<or> fs1 ?n = Some Dir" using top m by metis
    then obtain g' where "mkdir_ok fs1 ?n = Some g'" "g' ?n = Some Dir"
      using mkdir_ok_live[of fs1 ?n] d sp by auto
    moreover have "makedirs fs ?n = mkdir_ok fs1 ?n"
      using True r sp c abs_path_ne by (subst makedirs.simps) (simp add: Let_def)
    ultimately show ?thesis by simp
  next
    case False
    with cs have d: "fs (abs_path cs) = Some Dir" by (elim disjE) simp_all
    then obtain g' where "mkdir_ok fs ?n = Some g'" "g' ?n = Some Dir"
      using mkdir_ok_live[of fs ?n] top sp by auto
    moreover have "makedirs fs ?n = mkdir_ok fs ?n"
      using d sp by (subst makedirs.simps) (simp add: Let_def)
    ultimately show ?thesis by simp
  qed
qed

text \<open>
  C25: lines 93--110 succeed on a normalised output path when the root is a directory,
  every ancestor of the output directory is a directory or absent, and the exporter
  succeeds: \<open>os.makedirs\<close> creates the missing ancestors in order and the GLB file is
  then at the output path.
\<close>

theorem write_output_succeeds:
  "fs ''/'' = Some Dir \<Longrightarrow> list_all plain_comp (cs @ [f]) \<Longrightarrow>
   list_all (\<lambda>p. fs p = None \<or> fs p = Some Dir) (ancestors cs) \<Longrightarrow>
   exporter_ok (abs_path (cs @ [f])) gltf_settings s \<Longrightarrow>
   \<exists>fs'. write_output exporter_ok (abs_path (cs @ [f])) s fs = Inr fs' \<and>
     fs' (abs_path (cs @ [f])) = Some (Glb gltf_settings s) \<and> fs' (abs_path cs) = Some Dir"
proof -
  assume r: "fs ''/'' = Some Dir" and pc: "list_all plain_comp (cs @ [f])"
    and an: "list_all (\<lambda>p. fs p = None \<or> fs p = Some Dir) (ancestors cs)"
    and ex: "exporter_ok (abs_path (cs @ [f])) gltf_settings s"
  have "\<forall>k \<le> length cs. fs (abs_path (take k cs)) = None \<or> fs (abs_path (take k cs)) = Some Dir"
    using an by (auto simp: ancestors_def list_all_iff)
  moreover have "list_all plain_comp cs" using pc by simp
  ultimately obtain fs1 where m: "makedirs fs (abs_path cs) = Some fs1" "fs1 (abs_path cs) = Some Dir"
    using makedirs_live[where fs = fs and cs = cs] r by blast
  have o: "out_dir (abs_path (cs @ [f])) = abs_path cs"
    using abs_path_split[OF pc] abs_path_ne by (simp add: out_dir_def parent_dir_def)
  have "f \<noteq> []" using pc by (simp add: plain_comp_def)
  then have "abs_path (cs @ [f]) \<noteq> abs_path cs"
    using arg_cong[of _ _ length, of "abs_path (cs @ [f])" "abs_path cs"] by (auto simp: abs_path_def)
  then show ?thesis using m ex o by (simp add: write_output_def)
qed

subsection \<open>os.path.abspath gives normalised paths\<close>

lemma norm_step_plain:
  "list_all plain_comp new \<Longrightarrow> CHR ''/'' \<notin> set part \<Longrightarrow> list_all plain_comp (norm_step True new part)"
  by (cases new rule: rev_cases) (auto simp: norm_step_def plain_comp_def)

lemma foldl_norm_plain:
  "list_all plain_comp new \<Longrightarrow> \<forall>x\<in>set parts. CHR ''/'' \<notin> set x \<Longrightarrow>
   list_all plain_comp (foldl (norm_step True) new parts)"
  by (induction parts arbitrary: new) (simp_all add: norm_step_plain)

lemma foldl_norm_keep:
  "list_all plain_comp parts \<Longrightarrow> foldl (norm_step ini) new parts = new @ parts"
  by (induction parts arbitrary: new) (simp_all add: norm_step_def plain_comp_def)

lemma join_abs_path: "CHR ''/'' # join_with ''/'' cs = abs_path cs"
proof (induction cs)
  case (Cons w cs)
  then show ?case by (cases cs) (simp_all add: abs_path_def)
qed (simp add: abs_path_def)

lemma normpath_slash:
  assumes "startswith q ''/''" "\<not> startswith q ''//''"
  shows "normpath q = abs_path (foldl (norm_step True) [] (split_on CHR ''/'' q)) \<and>
    list_all plain_comp (foldl (norm_step True) [] (split_on CHR ''/'' q))"
proof -
  have q: "q \<noteq> []" using assms(1) by (auto simp: startswith_def)
  have p: "list_all plain_comp (foldl (norm_step True) [] (split_on CHR ''/'' q))"
    by (rule foldl_norm_plain) (simp_all add: split_on_no_sep)
  show ?thesis using assms q p join_abs_path[symmetric]
    by (simp add: normpath_def Let_def abs_path_ne)
qed

lemma abs_path_slash: "startswith (abs_path cs) ''/''"
  using join_abs_path[of cs] by (metis startswith_append append_Cons append_Nil)

lemma abs_path_no_dslash: "list_all plain_comp cs \<Longrightarrow> \<not> startswith (abs_path cs) ''//''"
proof (cases cs)
  case (Cons c r)
  assume p: "list_all plain_comp cs"
  then have c: "c \<noteq> []" "CHR ''/'' \<notin> set c" using Cons by (auto simp: plain_comp_def)
  then have "hd c \<noteq> CHR ''/''" by (metis hd_in_set)
  then show ?thesis using Cons c by (cases c) (auto simp: abs_path_def startswith_def)
qed (simp add: abs_path_def startswith_def)

lemma normpath_abs_path: "list_all plain_comp cs \<Longrightarrow> normpath (abs_path cs) = abs_path cs"
proof -
  assume p: "list_all plain_comp cs"
  note s = abs_path_slash[of cs] and d = abs_path_no_dslash[OF p]
  have "split_on CHR ''/'' (abs_path cs) = [] # (if cs = [] then [[]] else cs)"
    using p split_on_join[of cs "CHR ''/''"] join_abs_path[of cs, symmetric]
    by (auto simp: list_all_iff plain_comp_def abs_path_def)
  then have "foldl (norm_step True) [] (split_on CHR ''/'' (abs_path cs)) = cs"
    using p foldl_norm_keep[OF p, of True "[]"] by (simp add: norm_step_def)
  then show ?thesis using normpath_slash[OF s d] by simp
qed

lemma abspath_abs_path: "list_all plain_comp cs \<Longrightarrow> abspath cwd (abs_path cs) = abs_path cs"
  by (simp add: abspath_def abs_path_slash normpath_abs_path)

lemma join_abs_slash:
  assumes "list_all plain_comp ccs" "\<not> startswith p ''/''"
  shows "startswith (path_join (abs_path ccs) p) ''/'' \<and> \<not> startswith (path_join (abs_path ccs) p) ''//''"
proof (cases "ccs = []")
  case True
  then show ?thesis using assms(2) by (cases p) (auto simp: path_join_def abs_path_def startswith_def)
next
  case False
  have l: "last (abs_path ccs) \<noteq> CHR ''/''" by (rule abs_path_last[OF assms(1) False])
  have n: "\<not> startswith (abs_path ccs) ''//''" by (rule abs_path_no_dslash[OF assms(1)])
  have s: "startswith (abs_path ccs) ''/''" by (rule abs_path_slash)
  have two: "2 \<le> length (abs_path ccs)"
  proof -
    obtain c r where "ccs = c # r" using False by (cases ccs) auto
    moreover have "c \<noteq> []" using assms(1) calculation by (simp add: plain_comp_def)
    ultimately show ?thesis by (cases c) (simp_all add: abs_path_def)
  qed
  then have "take 2 (abs_path ccs @ CHR ''/'' # p) = take 2 (abs_path ccs)"
    "take 1 (abs_path ccs @ CHR ''/'' # p) = take 1 (abs_path ccs)" by simp_all
  moreover have "path_join (abs_path ccs) p = abs_path ccs @ CHR ''/'' # p"
    using assms(2) l abs_path_ne[of ccs] by (simp add: path_join_def)
  ultimately show ?thesis using n s by (simp add: startswith_def)
qed

text \<open>
  C26: from a normalised working directory, \<open>os.path.abspath\<close> of any path that does
  not start with \<open>//\<close> (POSIX leaves a leading \<open>//\<close> to the implementation, and
  \<open>normpath\<close> keeps exactly two slashes) is a normalised absolute path, and a second \<open>abspath\<close>
  leaves it as it is. This is the form of path that \<open>write_output_succeeds\<close> (C25)
  and the model of the file system as a map from strings assume.
\<close>

theorem abspath_normal:
  "list_all plain_comp ccs \<Longrightarrow> \<not> startswith p ''//'' \<Longrightarrow>
   \<exists>cs. list_all plain_comp cs \<and> abspath (abs_path ccs) p = abs_path cs \<and>
     abspath (abs_path ccs) (abspath (abs_path ccs) p) = abspath (abs_path ccs) p"
proof -
  assume c: "list_all plain_comp ccs" and p: "\<not> startswith p ''//''"
  define q where "q = (if startswith p ''/'' then p else path_join (abs_path ccs) p)"
  have "startswith q ''/'' \<and> \<not> startswith q ''//''"
    using p join_abs_slash[OF c] by (simp add: q_def)
  then have n: "normpath q = abs_path (foldl (norm_step True) [] (split_on CHR ''/'' q))"
    and pl: "list_all plain_comp (foldl (norm_step True) [] (split_on CHR ''/'' q))"
    using normpath_slash by blast+
  have "abspath (abs_path ccs) p = normpath q" by (simp add: abspath_def q_def)
  then show ?thesis using n pl abspath_abs_path by auto
qed

subsection \<open>os.path.normpath is idempotent\<close>

lemma norm_step_rel:
  "rel_norm new \<Longrightarrow> CHR ''/'' \<notin> set part \<Longrightarrow> rel_norm (norm_step False new part)"
proof -
  assume r: "rel_norm new" and s: "CHR ''/'' \<notin> set part"
  then obtain k ps where n: "new = replicate k ''..'' @ ps" and p: "list_all plain_comp ps"
    by (auto simp: rel_norm_def)
  show ?thesis
  proof (cases "part = [] \<or> part = ''.''")
    case True
    then show ?thesis using r by (auto simp: norm_step_def)
  next
    case np: False
    show ?thesis
    proof (cases "part = ''..''")
      case False
      then have "plain_comp part" using np s by (simp add: plain_comp_def)
      then have "norm_step False new part = replicate k ''..'' @ (ps @ [part])"
        using False np by (simp add: norm_step_def n)
      then show ?thesis using p \<open>plain_comp part\<close> unfolding rel_norm_def
        by (intro exI[of _ k] exI[of _ "ps @ [part]"]) simp
    next
      case True
      show ?thesis
      proof (cases "ps = []")
        case True
        then have "norm_step False new part = replicate (Suc k) ''..''"
          using \<open>part = ''..''\<close> n by (cases k) (auto simp: norm_step_def replicate_append_same)
        then show ?thesis unfolding rel_norm_def by (intro exI[of _ "Suc k"] exI[of _ "[]"]) simp
      next
        case False
        then have "last new \<noteq> ''..''" using p n by (auto simp: plain_comp_def list_all_iff)
        then have "norm_step False new part = replicate k ''..'' @ butlast ps"
          using \<open>part = ''..''\<close> n False by (simp add: norm_step_def butlast_append)
        moreover have "list_all plain_comp (butlast ps)" using p by (simp add: list_all_iff in_set_butlastD)
        ultimately show ?thesis by (auto simp: rel_norm_def)
      qed
    qed
  qed
qed

lemma foldl_norm_rel:
  "rel_norm new \<Longrightarrow> \<forall>x\<in>set parts. CHR ''/'' \<notin> set x \<Longrightarrow> rel_norm (foldl (norm_step False) new parts)"
  by (induction parts arbitrary: new) (simp_all add: norm_step_rel)

lemma foldl_norm_dots:
  "foldl (norm_step False) (replicate j ''..'') (replicate k ''..'') = replicate (j + k) ''..''"
proof (induction k arbitrary: j)
  case (Suc k)
  have "norm_step False (replicate j ''..'') ''..'' = replicate (Suc j) ''..''"
    by (cases j) (simp_all add: norm_step_def replicate_append_same)
  then show ?case using Suc.IH[of "Suc j"] by simp
qed simp

lemma foldl_norm_keep_rel: "rel_norm cs \<Longrightarrow> foldl (norm_step False) [] cs = cs"
proof -
  assume "rel_norm cs"
  then obtain k ps where cs: "cs = replicate k ''..'' @ ps" and p: "list_all plain_comp ps"
    by (auto simp: rel_norm_def)
  show ?thesis using foldl_norm_dots[of 0 k] foldl_norm_keep[OF p] by (simp add: cs)
qed

lemma rel_norm_parts: "rel_norm cs \<Longrightarrow> \<forall>x\<in>set cs. x \<noteq> [] \<and> CHR ''/'' \<notin> set x"
proof
  fix x assume "rel_norm cs" "x \<in> set cs"
  then obtain k ps where "cs = replicate k ''..'' @ ps" "list_all plain_comp ps" by (auto simp: rel_norm_def)
  then have "x = ''..'' \<or> plain_comp x" using \<open>x \<in> set cs\<close> by (auto simp: list_all_iff dest: in_set_replicate[THEN iffD1])
  then show "x \<noteq> [] \<and> CHR ''/'' \<notin> set x" by (auto simp only: plain_comp_def) simp_all
qed

lemma join_no_slash: "\<forall>x\<in>set cs. x \<noteq> [] \<and> CHR ''/'' \<notin> set x \<Longrightarrow> cs \<noteq> [] \<Longrightarrow>
  join_with ''/'' cs \<noteq> [] \<and> hd (join_with ''/'' cs) \<noteq> CHR ''/''"
proof (induction cs)
  case (Cons w cs)
  then have "w \<noteq> []" "hd w \<noteq> CHR ''/''" by (auto dest: hd_in_set)
  then show ?case by (cases cs) simp_all
qed simp

lemma normpath_rel: "rel_norm cs \<Longrightarrow> cs \<noteq> [] \<Longrightarrow> normpath (join_with ''/'' cs) = join_with ''/'' cs"
proof -
  assume r: "rel_norm cs" and ne: "cs \<noteq> []"
  note parts = rel_norm_parts[OF r]
  have j: "join_with ''/'' cs \<noteq> [] \<and> hd (join_with ''/'' cs) \<noteq> CHR ''/''" by (rule join_no_slash[OF parts ne])
  then have ns: "\<not> startswith (join_with ''/'' cs) ''/''" by (cases "join_with ''/'' cs") (auto simp: startswith_def)
  have "split_on CHR ''/'' (join_with ''/'' cs) = cs" using split_on_join[of cs "CHR ''/''"] parts ne by simp
  then show ?thesis using ns j foldl_norm_keep_rel[OF r] by (simp add: normpath_def Let_def)
qed

lemma normpath_dslash:
  "list_all plain_comp cs \<Longrightarrow> normpath (CHR ''/'' # CHR ''/'' # join_with ''/'' cs) = CHR ''/'' # CHR ''/'' # join_with ''/'' cs"
proof -
  assume p: "list_all plain_comp cs"
  have parts: "\<forall>x\<in>set cs. x \<noteq> [] \<and> CHR ''/'' \<notin> set x" using p by (auto simp: plain_comp_def list_all_iff)
  have s: "startswith (CHR ''/'' # CHR ''/'' # join_with ''/'' cs) ''//''" by (simp add: startswith_def)
  have n3: "\<not> startswith (CHR ''/'' # CHR ''/'' # join_with ''/'' cs) ''///''"
  proof (cases "cs = []")
    case False
    then show ?thesis using join_no_slash[OF parts False]
      by (cases "join_with ''/'' cs") (auto simp: startswith_def)
  qed (simp add: startswith_def)
  have "foldl (norm_step True) [] (split_on CHR ''/'' (CHR ''/'' # CHR ''/'' # join_with ''/'' cs)) = cs"
  proof (cases "cs = []")
    case True
    then show ?thesis by (simp add: norm_step_def)
  next
    case False
    then have "split_on CHR ''/'' (join_with ''/'' cs) = cs" using split_on_join[of cs "CHR ''/''"] parts by simp
    then show ?thesis using foldl_norm_keep[OF p, of True "[]"] by (simp add: norm_step_def)
  qed
  then show ?thesis using s n3 by (simp add: normpath_def Let_def startswith_def numeral_2_eq_2)
qed

lemma normpath_dot: "normpath ''.'' = ''.''"
  by (simp add: normpath_def startswith_def norm_step_def)

text \<open>
  The result of \<open>posixpath.normpath\<close> has one of three shapes: \<open>.\<close>, a relative path
  in normal form, or one or two slashes followed by plain components.
\<close>

lemma normpath_cases:
  "normpath p = ''.'' \<or> (\<exists>cs. rel_norm cs \<and> cs \<noteq> [] \<and> normpath p = join_with ''/'' cs) \<or>
   (\<exists>cs. list_all plain_comp cs \<and>
      (normpath p = abs_path cs \<or> normpath p = CHR ''/'' # CHR ''/'' # join_with ''/'' cs))"
proof (cases "p = []")
  case True
  then show ?thesis by (simp add: normpath_def)
next
  case ne: False
  define ini where "ini = (if startswith p ''/'' then (if startswith p ''//'' \<and> \<not> startswith p ''///'' then 2 else 1) else (0::nat))"
  define comps where "comps = foldl (norm_step (ini \<noteq> 0)) [] (split_on CHR ''/'' p)"
  define r where "r = replicate ini CHR ''/'' @ join_with ''/'' comps"
  have np: "normpath p = (if r = [] then ''.'' else r)"
    using ne by (simp add: normpath_def Let_def ini_def comps_def r_def)
  have parts: "\<forall>x\<in>set (split_on CHR ''/'' p). CHR ''/'' \<notin> set x" by (simp add: split_on_no_sep)
  show ?thesis
  proof (cases "r = []")
    case True
    then show ?thesis using np by simp
  next
    case rne: False
    show ?thesis
    proof (cases "ini = 0")
      case True
      have "rel_norm []" unfolding rel_norm_def by (intro exI[of _ 0] exI[of _ "[]"]) simp
      then have "rel_norm comps" unfolding comps_def True using foldl_norm_rel[OF _ parts] by simp
      moreover have "comps \<noteq> []" using rne True by (cases comps) (simp_all add: r_def)
      moreover have "normpath p = join_with ''/'' comps" using np rne True by (simp add: r_def)
      ultimately show ?thesis by blast
    next
      case False
      then have pl: "list_all plain_comp comps" unfolding comps_def
        by (simp add: foldl_norm_plain[OF _ parts])
      have "ini = 1 \<or> ini = 2" using False by (simp add: ini_def split: if_splits)
      then have "normpath p = abs_path comps \<or> normpath p = CHR ''/'' # CHR ''/'' # join_with ''/'' comps"
        using np rne join_abs_path[of comps] by (auto simp: r_def numeral_2_eq_2)
      then show ?thesis using pl by blast
    qed
  qed
qed

text \<open>
  C29: \<open>posixpath.normpath\<close> returns a path in normal form, and normal forms are its
  fixed points: every result is \<open>.\<close>, a non-empty relative path of leading \<open>..\<close>
  components followed by plain ones, or one or two slashes followed by plain components;
  every path of these shapes is returned unchanged; so normalising twice is normalising
  once.
\<close>

theorem normpath_idem:
  "(normpath p = ''.'' \<or> (\<exists>cs. rel_norm cs \<and> cs \<noteq> [] \<and> normpath p = join_with ''/'' cs) \<or>
     (\<exists>cs. list_all plain_comp cs \<and>
        (normpath p = abs_path cs \<or> normpath p = ''//'' @ join_with ''/'' cs))) \<and>
   (\<forall>cs. rel_norm cs \<and> cs \<noteq> [] \<longrightarrow> normpath (join_with ''/'' cs) = join_with ''/'' cs) \<and>
   (\<forall>cs. list_all plain_comp cs \<longrightarrow>
      normpath (abs_path cs) = abs_path cs \<and>
      normpath (''//'' @ join_with ''/'' cs) = ''//'' @ join_with ''/'' cs) \<and>
   normpath (normpath p) = normpath p"
proof -
  have fix_rel: "\<forall>cs. rel_norm cs \<and> cs \<noteq> [] \<longrightarrow> normpath (join_with ''/'' cs) = join_with ''/'' cs"
    using normpath_rel by blast
  have fix_abs: "\<forall>cs. list_all plain_comp cs \<longrightarrow>
      normpath (abs_path cs) = abs_path cs \<and>
      normpath (''//'' @ join_with ''/'' cs) = ''//'' @ join_with ''/'' cs"
    using normpath_abs_path normpath_dslash by simp
  have "normpath (normpath p) = normpath p"
    using normpath_cases[of p] normpath_dot normpath_rel normpath_abs_path normpath_dslash by auto
  then show ?thesis using normpath_cases[of p] fix_rel fix_abs by simp
qed

end
