(* ===== verification/Driver.thy ===== *)
theory Driver
  imports Disambiguate Cleanup Binding Files
begin

text \<open>
  The Pipeline Driver, \<open>_blender_main\<close> of \<open>fbx_to_glb.py\<close> (lines 26--112), over
  the parsed arguments. The host (Blender and the process) is a record of what the
  script calls and does not define: the working directory \<open>abspath\<close> resolves
  against, the FBX import operator (\<open>None\<close> when it raises) and whether the glTF
  exporter succeeds. The world the run changes is the scene, the file system and the
  printed output. One iteration of the merge loop (lines 57--83) is \<open>merge_one\<close>,
  the loop is \<open>merge_anims\<close>, the whole run is \<open>blender_main\<close>.
\<close>

record host =
  h_cwd :: path
  h_import :: "path \<Rightarrow> scene \<Rightarrow> scene option"
  h_export_ok :: "path \<Rightarrow> export_settings \<Rightarrow> scene \<Rightarrow> bool"

record world =
  w_scene :: scene
  w_fs :: fs
  w_stdout :: "string list"

text \<open>The arguments \<open>_parse_args\<close> returns: \<open>--model\<close>, the \<open>--anim\<close> list, \<open>--out\<close>.\<close>

record cli_args =
  arg_model :: path
  arg_anim :: "path list"
  arg_out :: path

text \<open>The host keeps its side of the importer's contract on every well-formed scene.\<close>

definition host_ok :: "host \<Rightarrow> bool" where
  "host_ok h \<longleftrightarrow> (\<forall>p s s'. wf_scene s \<longrightarrow> h_import h p s = Some s' \<longrightarrow> import_extends s s')"

subsection \<open>The merge loop\<close>

text \<open>The loop's state: the scene and the set \<open>existing_actions\<close> (lines 54 and 83).\<close>

record merge_state =
  ms_scene :: scene
  ms_existing :: "ident set"

text \<open>Lines 57--83, one animation source.\<close>

definition merge_one :: "host \<Rightarrow> path \<Rightarrow> merge_state \<Rightarrow> run_error + merge_state" where
  "merge_one h ap st =
     (let s = ms_scene st; before_actions = action_ids s; before_objs = object_ids s in
      case h_import h ap s of
        None \<Rightarrow> Inl (ImportFailed ap)
      | Some s1 \<Rightarrow>
          let nas = new_actions before_actions s1;
              s2 = rename_new_actions (file_stem ap) nas s1;
              s3 = cleanup_new_objects (new_objects before_objs s2) s2
          in Inr \<lparr>ms_scene = s3, ms_existing = ms_existing st \<union> set nas\<rparr>)"

text \<open>
  Line 57: the sources in the order given. An error ends the loop; it is returned with
  the state reached before the failing import.
\<close>

fun merge_anims ::
  "host \<Rightarrow> path list \<Rightarrow> merge_state \<Rightarrow> (run_error \<times> merge_state) + merge_state" where
  "merge_anims h [] st = Inr st"
| "merge_anims h (ap # aps) st =
     (case merge_one h ap st of
        Inl e \<Rightarrow> Inl (e, st)
      | Inr st' \<Rightarrow> merge_anims h aps st')"

text \<open>One iteration on scenes: rename the new actions, then remove the new objects.\<close>

definition merged_scene :: "string \<Rightarrow> scene \<Rightarrow> scene \<Rightarrow> scene" where
  "merged_scene base s s1 =
     cleanup_new_objects (new_objects (object_ids s) s1) (rename_all base (action_ids s1 - action_ids s) s1)"

text \<open>The invariant of the merge loop, over the objects \<open>B\<close> of the base import.\<close>

definition merge_inv :: "bobject list \<Rightarrow> merge_state \<Rightarrow> bool" where
  "merge_inv B st \<longleftrightarrow>
     wf_scene (ms_scene st) \<and> map unsel (objects (ms_scene st)) = B \<and>
     ms_existing st = action_ids (ms_scene st)"

subsection \<open>The run\<close>

text \<open>Lines 40--42: the first animation path that does not exist.\<close>

fun first_missing :: "fs \<Rightarrow> path list \<Rightarrow> path option" where
  "first_missing fs [] = None"
| "first_missing fs (a # aps) = (if fs a = None then Some a else first_missing fs aps)"

text \<open>
  Lines 30--112. The factory reset (line 30) comes first; the existence checks
  (lines 38--42) run before any import; the export is the last step.
\<close>

definition blender_main :: "host \<Rightarrow> cli_args \<Rightarrow> world \<Rightarrow> run_error option \<times> world" where
  "blender_main h args w0 =
     (let w = w0\<lparr>w_scene := empty_scene\<rparr>;
          model_path = abspath (h_cwd h) (arg_model args);
          anim_paths = map (abspath (h_cwd h)) (arg_anim args);
          out_path = abspath (h_cwd h) (arg_out args)
      in if w_fs w model_path = None then (Some (MissingModel model_path), w)
      else case first_missing (w_fs w) anim_paths of
        Some a \<Rightarrow> (Some (MissingAnim a), w)
      | None \<Rightarrow>
        (case h_import h model_path (w_scene w) of
          None \<Rightarrow> (Some (ImportFailed model_path), w)
        | Some s0 \<Rightarrow>
          (case armatures s0 of
            [] \<Rightarrow> (Some NoArmature, w\<lparr>w_scene := s0\<rparr>)
          | main_arm # _ \<Rightarrow>
            (case merge_anims h anim_paths \<lparr>ms_scene = s0, ms_existing = action_ids s0\<rparr> of
              Inl (e, st) \<Rightarrow> (Some e, w\<lparr>w_scene := ms_scene st\<rparr>)
            | Inr st \<Rightarrow>
              (case finalize_binding (ob_id main_arm) (ms_scene st) of
                Inl e \<Rightarrow> (Some e, w\<lparr>w_scene := ms_scene st\<rparr>)
              | Inr s \<Rightarrow>
                (case write_output (h_export_ok h) out_path s (w_fs w) of
                  Inl e \<Rightarrow> (Some e, w\<lparr>w_scene := s\<rparr>)
                | Inr fs' \<Rightarrow>
                    (None, w\<lparr>w_scene := s, w_fs := fs',
                             w_stdout := w_stdout w @ [''Wrote '' @ out_path]\<rparr>)))))))"

text \<open>The part of an object a run preserves: identity, name and type.\<close>

definition ob_key :: "bobject \<Rightarrow> ident \<times> string \<times> obj_type" where
  "ob_key ob = (ob_id ob, ob_name ob, ob_type ob)"

subsection \<open>One iteration on scenes\<close>

lemma set_new_actions: "set (new_actions before s) = action_ids s - before"
  by (auto simp: new_actions_def action_ids_def)

lemma new_objects_rename_all [simp]: "new_objects before (rename_all base K s) = new_objects before s"
  by (simp add: new_objects_def)

lemma object_ids_rename_all [simp]: "object_ids (rename_all base K s) = object_ids s"
  by (simp add: object_ids_def)

lemma merge_one_eq:
  "merge_one h ap st =
     (case h_import h ap (ms_scene st) of
        None \<Rightarrow> Inl (ImportFailed ap)
      | Some s1 \<Rightarrow> Inr \<lparr>ms_scene = merged_scene (file_stem ap) (ms_scene st) s1,
                        ms_existing = ms_existing st \<union> (action_ids s1 - action_ids (ms_scene st))\<rparr>)"
  by (simp add: merge_one_def merged_scene_def rename_new_actions_eq set_new_actions Let_def
      split: option.splits)

lemma merged_scene_objects:
  assumes "import_extends s s1"
  shows "map unsel (objects (merged_scene base s s1)) = map unsel (objects s)"
proof -
  let ?s2 = "rename_all base (action_ids s1 - action_ids s) s1"
  have "map unsel (objects (merged_scene base s s1)) =
        map unsel (filter (\<lambda>ob. ob_id ob \<in> object_ids s) (objects ?s2))"
    using cleanup_exact[of "object_ids s" ?s2] by (simp add: merged_scene_def)
  also have "\<dots> = map unsel (objects s)"
    using assms by (simp add: import_extends_def)
  finally show ?thesis .
qed


lemma merged_scene_actions:
  "actions (merged_scene base s s1) = actions (rename_all base (action_ids s1 - action_ids s) s1)"
  by (simp add: merged_scene_def)

lemma action_ids_rename_all [simp]: "action_ids (rename_all base K s) = action_ids s"
  by (simp only: action_ids_def rename_all_action_ids)

lemma merged_scene_action_ids [simp]: "action_ids (merged_scene base s s1) = action_ids s1"
  by (simp only: merged_scene_def action_ids_def cleanup_actions rename_all_action_ids)

lemma merged_scene_ids_sub: "set (map act_id (actions (merged_scene base s s1))) \<subseteq> action_ids s1"
  using merged_scene_action_ids[of base s s1] by (simp add: action_ids_def)

lemma actions_ids_sub: "set (map act_id (actions s1)) \<subseteq> action_ids s1"
  by (simp add: action_ids_def)

lemma merged_scene_old_actions:
  assumes "import_extends s s1"
  shows "filter (\<lambda>a. act_id a \<in> action_ids s) (actions (merged_scene base s s1)) = actions s"
proof -
  let ?K = "action_ids s1 - action_ids s"
  have "filter (\<lambda>a. act_id a \<in> action_ids s) (actions (merged_scene base s s1)) =
        filter (\<lambda>a. act_id a \<notin> ?K) (actions (rename_all base ?K s1))"
    using filter_keys_diff(1)[OF merged_scene_ids_sub[of base s s1], of "action_ids s"]
    by (simp add: merged_scene_actions)
  also have "\<dots> = filter (\<lambda>a. act_id a \<in> action_ids s) (actions s1)"
    by (simp only: rename_all_outside filter_keys_diff(1)[OF actions_ids_sub])
  also have "\<dots> = actions s"
    using assms by (simp add: import_extends_def)
  finally show ?thesis .
qed

lemma merged_scene_new_actions:
  "filter (\<lambda>a. act_id a \<notin> action_ids s) (actions (merged_scene base s s1)) =
   map (rename_action base) (filter (\<lambda>a. act_id a \<notin> action_ids s) (actions s1))"
proof -
  let ?K = "action_ids s1 - action_ids s"
  have "filter (\<lambda>a. act_id a \<notin> action_ids s) (actions (merged_scene base s s1)) =
        filter (\<lambda>a. act_id a \<in> ?K) (actions (rename_all base ?K s1))"
    using filter_keys_diff(2)[OF merged_scene_ids_sub[of base s s1], of "action_ids s"]
    by (simp add: merged_scene_actions)
  also have "\<dots> = map (rename_action base) (filter (\<lambda>a. act_id a \<notin> action_ids s) (actions s1))"
    by (simp only: rename_all_inside filter_keys_diff(2)[OF actions_ids_sub])
  finally show ?thesis .
qed

lemma merged_scene_wf:
  assumes "wf_scene s" "import_extends s s1"
  shows "wf_scene (merged_scene base s s1)"
proof -
  have "map ob_id (map unsel (objects (merged_scene base s s1))) = map ob_id (map unsel (objects s))"
    using merged_scene_objects[OF assms(2)] by simp
  then have "map ob_id (objects (merged_scene base s s1)) = map ob_id (objects s)"
    by (simp add: comp_def)
  moreover have "map act_id (actions (merged_scene base s s1)) = map act_id (actions s1)"
    by (simp add: merged_scene_actions)
  ultimately show ?thesis
    using assms import_extends_wf[OF assms(2)] by (simp add: wf_scene_def)
qed

lemma host_import:
  "host_ok h \<Longrightarrow> wf_scene s \<Longrightarrow> h_import h p s = Some s1 \<Longrightarrow> import_extends s s1"
  by (simp add: host_ok_def)

lemma merge_one_Inr:
  "merge_one h ap st = Inr st' \<Longrightarrow>
   \<exists>s1. h_import h ap (ms_scene st) = Some s1 \<and>
        st' = \<lparr>ms_scene = merged_scene (file_stem ap) (ms_scene st) s1,
               ms_existing = ms_existing st \<union> (action_ids s1 - action_ids (ms_scene st))\<rparr>"
  by (simp add: merge_one_eq split: option.splits)

lemma merge_one_inv:
  assumes "host_ok h" "merge_inv B st" "merge_one h ap st = Inr st'"
  shows "merge_inv B st'"
proof -
  obtain s1 where imp: "h_import h ap (ms_scene st) = Some s1"
    and st': "st' = \<lparr>ms_scene = merged_scene (file_stem ap) (ms_scene st) s1,
               ms_existing = ms_existing st \<union> (action_ids s1 - action_ids (ms_scene st))\<rparr>"
    using merge_one_Inr[OF assms(3)] by blast
  have ext: "import_extends (ms_scene st) s1"
    using assms(1,2) imp by (simp add: merge_inv_def host_import)
  have sub: "action_ids (ms_scene st) \<subseteq> action_ids s1"
    using ext by (rule import_extends_action_ids)
  have w: "wf_scene (ms_scene st)" and b: "map unsel (objects (ms_scene st)) = B"
    and e: "ms_existing st = action_ids (ms_scene st)"
    using assms(2) by (simp_all add: merge_inv_def)
  have "ms_existing st \<union> (action_ids s1 - action_ids (ms_scene st)) = action_ids s1"
    using e sub by blast
  then show ?thesis
    by (simp add: st' merge_inv_def merged_scene_objects[OF ext] merged_scene_wf[OF w ext] b)
qed

lemma merge_anims_inv:
  "host_ok h \<Longrightarrow> merge_inv B st \<Longrightarrow> merge_anims h aps st = Inr st' \<Longrightarrow> merge_inv B st'"
proof (induction aps arbitrary: st)
  case Nil
  then show ?case by simp
next
  case (Cons ap aps)
  show ?case
  proof (cases "merge_one h ap st")
    case (Inl e)
    with Cons.prems(3) show ?thesis by simp
  next
    case (Inr st1)
    with Cons.prems(1,2) have "merge_inv B st1" by (rule merge_one_inv)
    with Cons.IH Cons.prems(1,3) Inr show ?thesis by simp
  qed
qed

subsection \<open>Facts about the loop\<close>

lemma merge_one_old_actions:
  assumes "host_ok h" "wf_scene (ms_scene st)" "merge_one h ap st = Inr st'"
  shows "filter (\<lambda>a. act_id a \<in> action_ids (ms_scene st)) (actions (ms_scene st')) = actions (ms_scene st)"
proof -
  obtain s1 where imp: "h_import h ap (ms_scene st) = Some s1"
    and st': "ms_scene st' = merged_scene (file_stem ap) (ms_scene st) s1"
    using merge_one_Inr[OF assms(3)] by auto
  have "import_extends (ms_scene st) s1" using assms(1,2) imp by (rule host_import)
  then show ?thesis by (simp add: st' merged_scene_old_actions)
qed

lemma merge_one_action_ids:
  assumes "host_ok h" "wf_scene (ms_scene st)" "merge_one h ap st = Inr st'"
  shows "action_ids (ms_scene st) \<subseteq> action_ids (ms_scene st')"
proof -
  obtain s1 where imp: "h_import h ap (ms_scene st) = Some s1"
    and st': "ms_scene st' = merged_scene (file_stem ap) (ms_scene st) s1"
    using merge_one_Inr[OF assms(3)] by auto
  have "import_extends (ms_scene st) s1" using assms(1,2) imp by (rule host_import)
  then show ?thesis by (simp add: st' import_extends_action_ids)
qed

lemma merge_anims_old_actions:
  "host_ok h \<Longrightarrow> merge_inv B st \<Longrightarrow> merge_anims h aps st = Inr st' \<Longrightarrow>
   filter (\<lambda>a. act_id a \<in> action_ids (ms_scene st)) (actions (ms_scene st')) = actions (ms_scene st)"
proof (induction aps arbitrary: st)
  case Nil
  then show ?case by (simp add: action_ids_def)
next
  case (Cons ap aps)
  show ?case
  proof (cases "merge_one h ap st")
    case (Inl e)
    with Cons.prems(3) show ?thesis by simp
  next
    case (Inr st1)
    have w: "wf_scene (ms_scene st)" using Cons.prems(2) by (simp add: merge_inv_def)
    have inv1: "merge_inv B st1" using Cons.prems(1,2) Inr by (rule merge_one_inv)
    have rest: "merge_anims h aps st1 = Inr st'" using Cons.prems(3) Inr by simp
    have ih: "filter (\<lambda>a. act_id a \<in> action_ids (ms_scene st1)) (actions (ms_scene st')) = actions (ms_scene st1)"
      using Cons.IH[OF Cons.prems(1) inv1 rest] .
    have sub: "action_ids (ms_scene st) \<subseteq> action_ids (ms_scene st1)"
      using Cons.prems(1) w Inr by (rule merge_one_action_ids)
    have "filter (\<lambda>a. act_id a \<in> action_ids (ms_scene st)) (actions (ms_scene st')) =
          filter (\<lambda>a. act_id a \<in> action_ids (ms_scene st)) (actions (ms_scene st1))"
      using filter_keys_mono[OF sub, of act_id "actions (ms_scene st')"] ih by simp
    also have "\<dots> = actions (ms_scene st)"
      using Cons.prems(1) w Inr by (rule merge_one_old_actions)
    finally show ?thesis .
  qed
qed

subsection \<open>One iteration, against the host's contract\<close>

text \<open>
  C1: after one animation source is merged, the scene's objects are exactly those it
  had before the import (identities, order and content; selection aside): the
  duplicates the import brought in are gone and nothing else was removed.
\<close>
theorem merge_one_restores_objects:
  assumes "host_ok h" "wf_scene (ms_scene st)" "merge_one h ap st = Inr st'"
  shows "map unsel (objects (ms_scene st')) = map unsel (objects (ms_scene st))"
proof -
  obtain s1 where imp: "h_import h ap (ms_scene st) = Some s1"
    and st': "ms_scene st' = merged_scene (file_stem ap) (ms_scene st) s1"
    using merge_one_Inr[OF assms(3)] by auto
  have "import_extends (ms_scene st) s1" using assms(1,2) imp by (rule host_import)
  then show ?thesis by (simp add: st' merged_scene_objects)
qed

text \<open>
  C2: clip accounting for one source: when the import succeeds the iteration succeeds;
  the clips present before are unchanged, the clips after it that were not there before
  are exactly the clips the import created, each passed through \<open>rename_action\<close>
  with the source's file stem, and the count grows by exactly their number.
\<close>
theorem merge_one_clips:
  assumes "host_ok h" "wf_scene (ms_scene st)" "h_import h ap (ms_scene st) = Some s1"
  shows "\<exists>st'. merge_one h ap st = Inr st' \<and>
    filter (\<lambda>a. act_id a \<in> action_ids (ms_scene st)) (actions (ms_scene st')) = actions (ms_scene st) \<and>
    filter (\<lambda>a. act_id a \<notin> action_ids (ms_scene st)) (actions (ms_scene st')) =
      map (rename_action (file_stem ap)) (filter (\<lambda>a. act_id a \<notin> action_ids (ms_scene st)) (actions s1)) \<and>
    length (actions (ms_scene st')) =
      length (actions (ms_scene st)) + length (filter (\<lambda>a. act_id a \<notin> action_ids (ms_scene st)) (actions s1))"
proof -
  let ?s = "ms_scene st" and ?m = "merged_scene (file_stem ap) (ms_scene st) s1"
  have ext: "import_extends ?s s1" using assms by (rule host_import)
  have old: "filter (\<lambda>a. act_id a \<in> action_ids ?s) (actions ?m) = actions ?s"
    using ext by (rule merged_scene_old_actions)
  have new: "filter (\<lambda>a. act_id a \<notin> action_ids ?s) (actions ?m) =
      map (rename_action (file_stem ap)) (filter (\<lambda>a. act_id a \<notin> action_ids ?s) (actions s1))"
    by (rule merged_scene_new_actions)
  have "length (actions ?m) = length (actions ?s) + length (filter (\<lambda>a. act_id a \<notin> action_ids ?s) (actions s1))"
    using length_filter_keys_split[of "actions ?m" act_id "action_ids ?s"] old new by simp
  with old new show ?thesis
    by (simp add: merge_one_eq assms(3))
qed

subsection \<open>Properties of the run\<close>

lemma first_missing_None: "first_missing fs xs = None \<longleftrightarrow> (\<forall>a\<in>set xs. fs a \<noteq> None)"
  by (induction xs) auto

lemma blender_main_success_cases:
  assumes "blender_main h args w = (None, w')"
  obtains s0 arm rest st s fs' where
    "h_import h (abspath (h_cwd h) (arg_model args)) empty_scene = Some s0"
    "armatures s0 = arm # rest"
    "merge_anims h (map (abspath (h_cwd h)) (arg_anim args)) \<lparr>ms_scene = s0, ms_existing = action_ids s0\<rparr> = Inr st"
    "finalize_binding (ob_id arm) (ms_scene st) = Inr s"
    "write_output (h_export_ok h) (abspath (h_cwd h) (arg_out args)) s (w_fs w) = Inr fs'"
    "w' = w\<lparr>w_scene := s, w_fs := fs', w_stdout := w_stdout w @ [''Wrote '' @ abspath (h_cwd h) (arg_out args)]\<rparr>"
  using assms
  by (auto simp: blender_main_def Let_def split: if_splits option.splits list.splits sum.splits prod.splits)


lemma write_output_Inr: "write_output ex out s fs = Inr fs' \<Longrightarrow> fs' out = Some (Glb gltf_settings s)"
  by (auto simp: write_output_def split: option.splits if_splits)

lemma finalize_binding_Inl: "finalize_binding arm s = Inl e \<Longrightarrow> find_object arm s = None"
  by (auto simp: finalize_binding_def split: option.splits)

lemma armatures_in_objects: "armatures s = arm # rest \<Longrightarrow> ob_id arm \<in> object_ids s \<and> ob_type arm = ARMATURE"
proof -
  assume "armatures s = arm # rest"
  then have "arm \<in> set (filter (\<lambda>ob. ob_type ob = ARMATURE) (objects s))"
    by (simp add: armatures_def)
  then show ?thesis by (auto simp: object_ids_def)
qed

lemma object_ids_unsel_eq:
  "map unsel (objects s) = map unsel (objects s') \<Longrightarrow> object_ids s = object_ids s'"
proof -
  assume "map unsel (objects s) = map unsel (objects s')"
  then have "map ob_id (map unsel (objects s)) = map ob_id (map unsel (objects s'))" by simp
  then have "map ob_id (objects s) = map ob_id (objects s')" by (simp add: comp_def)
  then show ?thesis by (simp add: object_ids_def)
qed

lemma base_import_wf:
  "host_ok h \<Longrightarrow> h_import h p empty_scene = Some s0 \<Longrightarrow> wf_scene s0"
  using host_import import_extends_wf wf_scene_empty by blast

lemma merge_anims_from_base:
  assumes "host_ok h" "wf_scene s0"
    and "merge_anims h aps \<lparr>ms_scene = s0, ms_existing = action_ids s0\<rparr> = Inr st"
  shows "merge_inv (map unsel (objects s0)) st \<and>
    filter (\<lambda>a. act_id a \<in> action_ids s0) (actions (ms_scene st)) = actions s0"
proof -
  have inv0: "merge_inv (map unsel (objects s0)) \<lparr>ms_scene = s0, ms_existing = action_ids s0\<rparr>"
    using assms(2) by (simp add: merge_inv_def)
  show ?thesis
    using merge_anims_inv[OF assms(1) inv0 assms(3)] merge_anims_old_actions[OF assms(1) inv0 assms(3)]
    by simp
qed

text \<open>
  C3: the whole merge loop. Started from a well-formed base scene with
  \<open>existing_actions\<close> holding its actions, a loop that runs through every source
  leaves a well-formed scene whose objects are, in order and up to selection, exactly
  the base import's, whose \<open>existing_actions\<close> is the scene's action set, and in
  which the base scene's actions are kept, in order and unchanged.
\<close>
theorem merge_anims_result:
  assumes "host_ok h" "wf_scene s"
    and "merge_anims h aps \<lparr>ms_scene = s, ms_existing = action_ids s\<rparr> = Inr st"
  shows "wf_scene (ms_scene st) \<and> map unsel (objects (ms_scene st)) = map unsel (objects s) \<and>
    ms_existing st = action_ids (ms_scene st) \<and>
    filter (\<lambda>a. act_id a \<in> action_ids s) (actions (ms_scene st)) = actions s"
  using merge_anims_from_base[OF assms] by (simp add: merge_inv_def)

text \<open>
  C6: after one iteration every action that was not in the scene before is
  named with the file's stem as a case-insensitive prefix (line 70).
\<close>
theorem merge_one_names_prefixed:
  assumes "host_ok h" "wf_scene (ms_scene st)" "merge_one h ap st = Inr st'"
  shows "\<forall>a\<in>set (actions (ms_scene st')). act_id a \<notin> action_ids (ms_scene st) \<longrightarrow>
           startswith (py_lower (act_name a)) (py_lower (file_stem ap))"
proof (intro ballI impI)
  fix a assume a: "a \<in> set (actions (ms_scene st'))" "act_id a \<notin> action_ids (ms_scene st)"
  obtain s1 where st': "ms_scene st' = merged_scene (file_stem ap) (ms_scene st) s1"
    using merge_one_Inr[OF assms(3)] by auto
  have "a \<in> set (filter (\<lambda>a. act_id a \<notin> action_ids (ms_scene st)) (actions (ms_scene st')))"
    using a by simp
  then have "a \<in> rename_action (file_stem ap) ` set (actions s1)"
    by (auto simp: st' merged_scene_new_actions)
  then show "startswith (py_lower (act_name a)) (py_lower (file_stem ap))"
    using rename_action_prefixed by blast
qed

text \<open>
  C7: fail fast (lines 37--42). If the model file or any animation file does not
  exist, the run stops with \<open>MissingModel\<close> or \<open>MissingAnim\<close>, before any import:
  the world is the one the factory reset of line 30 left.
\<close>
theorem blender_main_fail_fast:
  assumes "w_fs w (abspath (h_cwd h) (arg_model args)) = None \<or>
           (\<exists>a\<in>set (arg_anim args). w_fs w (abspath (h_cwd h) a) = None)"
  shows "\<exists>p. (fst (blender_main h args w) = Some (MissingModel p) \<or>
              fst (blender_main h args w) = Some (MissingAnim p)) \<and>
            snd (blender_main h args w) = w\<lparr>w_scene := empty_scene\<rparr>"
proof (cases "w_fs w (abspath (h_cwd h) (arg_model args)) = None")
  case True
  then show ?thesis by (simp add: blender_main_def Let_def)
next
  case False
  with assms have "first_missing (w_fs w) (map (abspath (h_cwd h)) (arg_anim args)) \<noteq> None"
    by (auto simp: first_missing_None)
  then obtain a where "first_missing (w_fs w) (map (abspath (h_cwd h)) (arg_anim args)) = Some a"
    by blast
  with False show ?thesis by (simp add: blender_main_def Let_def)
qed

text \<open>
  C14: a base file without an armature ends the run with \<open>NoArmature\<close>
  (lines 47--50), after the base import and before any animation import.
\<close>
theorem blender_main_no_armature:
  assumes "w_fs w (abspath (h_cwd h) (arg_model args)) \<noteq> None"
    and "\<forall>a\<in>set (arg_anim args). w_fs w (abspath (h_cwd h) a) \<noteq> None"
    and "h_import h (abspath (h_cwd h) (arg_model args)) empty_scene = Some s0"
    and "armatures s0 = []"
  shows "blender_main h args w = (Some NoArmature, w\<lparr>w_scene := s0\<rparr>)"
proof -
  have "first_missing (w_fs w) (map (abspath (h_cwd h)) (arg_anim args)) = None"
    using assms(2) by (simp add: first_missing_None)
  with assms(1,3,4) show ?thesis by (simp add: blender_main_def Let_def)
qed



lemma ob_key_unsel [simp]: "ob_key (unsel ob) = ob_key ob"
  by (simp add: ob_key_def unsel_def)

lemma map_key_unsel_eq:
  "map unsel xs = map unsel ys \<Longrightarrow> map ob_key xs = map ob_key ys"
proof -
  assume "map unsel xs = map unsel ys"
  then have "map ob_key (map unsel xs) = map ob_key (map unsel ys)" by simp
  then show ?thesis by (simp add: comp_def)
qed

text \<open>The finalizer in a run: the objects keep identity, name and type; the armature is bound.\<close>

lemma finalize_in_run:
  assumes "wf_scene s" "arm \<in> set (objects s)" "finalize_binding (ob_id arm) s = Inr s'"
  shows "map ob_key (objects s') = map ob_key (objects s) \<and> actions s' = actions s \<and>
    (\<exists>ob\<in>set (objects s'). ob_key ob = ob_key arm \<and> ob_anim ob \<noteq> None \<and>
       (actions s \<noteq> [] \<longrightarrow> bound_action ob \<noteq> None))"
proof -
  have "ob_id arm \<in> object_ids s" using assms(2) by (simp add: object_ids_def)
  then obtain ob where ob: "find_object (ob_id arm) s = Some ob"
    using find_object_present by blast
  have obin: "ob \<in> set (objects s)" and obid: "ob_id ob = ob_id arm"
    using find_object_Some[OF ob] by auto
  have dist: "distinct (map ob_id (objects s))" using assms(1) by (simp add: wf_scene_def)
  have arm_eq: "ob = arm" using distinct_key_eq[OF dist obin assms(2) obid] .
  let ?fo = "finalize_object (first_action s) ob"
  have s': "s' = s\<lparr>objects := upd_where ob_id (ob_id arm) (\<lambda>_. ?fo) (objects s)\<rparr>"
    using assms(3) finalize_binding_found[OF ob] by simp
  have keys: "map ob_key (objects s') = map ob_key (objects s)"
    unfolding s' upd_where_def
    by (auto simp: ob_key_def arm_eq intro!: map_cong
        dest: distinct_key_eq[OF dist _ assms(2)])
  have fo_in: "?fo \<in> set (objects s')"
    using obin obid by (force simp: s' upd_where_def)
  have bnd: "actions s \<noteq> [] \<longrightarrow> bound_action ?fo \<noteq> None"
    by (auto simp: finalize_object_bound first_action_def split: list.splits option.splits)
  have anim: "ob_anim ?fo \<noteq> None" by (rule finalize_object_anim)
  have key: "ob_key ?fo = ob_key arm" by (simp add: ob_key_def arm_eq)
  have "actions s' = actions s" by (simp add: s')
  then show ?thesis using keys fo_in anim key bnd by blast
qed

text \<open>
  C8: a successful run. The base file was imported into the empty scene; the
  scene exported is the final scene, written as a GLB with the fixed settings to the
  output path; one line \<open>Wrote <path>\<close> is printed; the final objects have the
  identities, names and types of the base import's, in order; the base import's actions
  are kept; and the first armature has animation data, with an action bound whenever the
  scene has any.
\<close>
theorem blender_main_success:
  assumes "host_ok h" "blender_main h args w = (None, w')"
  shows "\<exists>s0 s. h_import h (abspath (h_cwd h) (arg_model args)) empty_scene = Some s0 \<and>
    w_scene w' = s \<and>
    w_fs w' (abspath (h_cwd h) (arg_out args)) = Some (Glb gltf_settings s) \<and>
    w_stdout w' = w_stdout w @ [''Wrote '' @ abspath (h_cwd h) (arg_out args)] \<and>
    map ob_key (objects s) = map ob_key (objects s0) \<and>
    filter (\<lambda>a. act_id a \<in> action_ids s0) (actions s) = actions s0 \<and>
    (\<exists>ob\<in>set (objects s). ob_key ob = ob_key (hd (armatures s0)) \<and> ob_type ob = ARMATURE \<and>
       ob_anim ob \<noteq> None \<and> (actions s \<noteq> [] \<longrightarrow> bound_action ob \<noteq> None))"
proof -
  obtain s0 arm rest st s fs' where
    imp: "h_import h (abspath (h_cwd h) (arg_model args)) empty_scene = Some s0"
    and arms: "armatures s0 = arm # rest"
    and loop: "merge_anims h (map (abspath (h_cwd h)) (arg_anim args)) \<lparr>ms_scene = s0, ms_existing = action_ids s0\<rparr> = Inr st"
    and fin: "finalize_binding (ob_id arm) (ms_scene st) = Inr s"
    and out: "write_output (h_export_ok h) (abspath (h_cwd h) (arg_out args)) s (w_fs w) = Inr fs'"
    and w': "w' = w\<lparr>w_scene := s, w_fs := fs', w_stdout := w_stdout w @ [''Wrote '' @ abspath (h_cwd h) (arg_out args)]\<rparr>"
    using blender_main_success_cases[OF assms(2)] by metis
  have wf0: "wf_scene s0" using assms(1) imp by (rule base_import_wf)
  have inv: "merge_inv (map unsel (objects s0)) st"
    and old: "filter (\<lambda>a. act_id a \<in> action_ids s0) (actions (ms_scene st)) = actions s0"
    using merge_anims_from_base[OF assms(1) wf0 loop] by auto
  have wfst: "wf_scene (ms_scene st)" and objs: "map unsel (objects (ms_scene st)) = map unsel (objects s0)"
    using inv by (simp_all add: merge_inv_def)
  have "arm \<in> set (armatures s0)" using arms by simp
  then have arm0: "arm \<in> set (objects s0)" and armty: "ob_type arm = ARMATURE"
    by (simp_all add: armatures_def)
  have "ob_key arm \<in> set (map ob_key (objects (ms_scene st)))"
    using arm0 map_key_unsel_eq[OF objs] by simp
  then obtain arm' where arm': "arm' \<in> set (objects (ms_scene st))" "ob_key arm' = ob_key arm"
    by auto
  have idarm: "ob_id arm' = ob_id arm" using arm'(2) by (simp add: ob_key_def)
  have fin': "finalize_binding (ob_id arm') (ms_scene st) = Inr s" using fin idarm by simp
  note F = finalize_in_run[OF wfst arm'(1) fin']
  show ?thesis
    using F arm' imp arms armty old write_output_Inr[OF out] map_key_unsel_eq[OF objs]
    by (auto simp: w' ob_key_def)
qed


lemma merge_one_Inl: "merge_one h ap st = Inl e \<Longrightarrow> e = ImportFailed ap"
  by (simp add: merge_one_def Let_def split: option.splits)

lemma merge_anims_Inl: "merge_anims h aps st = Inl (e, st') \<Longrightarrow> \<exists>p. e = ImportFailed p"
proof (induction aps arbitrary: st)
  case Nil
  then show ?case by simp
next
  case (Cons ap aps)
  then show ?case by (auto split: sum.splits dest: merge_one_Inl)
qed

lemma write_output_Inl: "write_output ex out s fs = Inl e \<Longrightarrow> e = MakedirsFailed (out_dir out) \<or> e = ExportFailed out"
  by (auto simp: write_output_def split: option.splits if_splits)

lemma blender_main_removed_cases:
  assumes "fst (blender_main h args w) = Some ArmatureRemoved"
  obtains s0 arm rest st where
    "h_import h (abspath (h_cwd h) (arg_model args)) empty_scene = Some s0"
    "armatures s0 = arm # rest"
    "merge_anims h (map (abspath (h_cwd h)) (arg_anim args)) \<lparr>ms_scene = s0, ms_existing = action_ids s0\<rparr> = Inr st"
    "finalize_binding (ob_id arm) (ms_scene st) = Inl ArmatureRemoved"
  using assms
  by (auto simp: blender_main_def Let_def split: if_splits option.splits list.splits sum.splits prod.splits
      dest: merge_anims_Inl write_output_Inl)

text \<open>
  C13: with a host that keeps the importer's contract, a run never fails on
  \<open>arm.animation_data_create()\<close> with a removed object: the target armature of
  line 51 is never deleted by the cleanup of lines 73--80.
\<close>
theorem armature_never_removed:
  assumes "host_ok h"
  shows "fst (blender_main h args w) \<noteq> Some ArmatureRemoved"
proof
  assume "fst (blender_main h args w) = Some ArmatureRemoved"
  then obtain s0 arm rest st where
    imp: "h_import h (abspath (h_cwd h) (arg_model args)) empty_scene = Some s0"
    and arms: "armatures s0 = arm # rest"
    and loop: "merge_anims h (map (abspath (h_cwd h)) (arg_anim args)) \<lparr>ms_scene = s0, ms_existing = action_ids s0\<rparr> = Inr st"
    and fin: "finalize_binding (ob_id arm) (ms_scene st) = Inl ArmatureRemoved"
    by (rule blender_main_removed_cases)
  have wf0: "wf_scene s0" using assms imp by (rule base_import_wf)
  have "merge_inv (map unsel (objects s0)) st"
    using merge_anims_from_base[OF assms wf0 loop] by simp
  then have "map unsel (objects (ms_scene st)) = map unsel (objects s0)"
    by (simp add: merge_inv_def)
  then have "object_ids (ms_scene st) = object_ids s0"
    by (rule object_ids_unsel_eq)
  moreover have "ob_id arm \<in> object_ids s0" using armatures_in_objects[OF arms] by simp
  ultimately obtain ob where "find_object (ob_id arm) (ms_scene st) = Some ob"
    using find_object_present by blast
  with finalize_binding_Inl[OF fin] show False by simp
qed

end
