(* ===== verification/FakeHost.thy ===== *)
theory FakeHost
  imports Driver
begin

text \<open>
  A scripted host: each FBX file is a list of objects and a list of action names;
  importing it appends fresh objects and actions to the scene, selects the new objects
  and deselects the others, and binds the first new action to every animated object
  of the file, as Blender's FBX importer does. Exporting always succeeds. The theorem
  \<open>fake_host_ok\<close> shows it keeps the importer's contract, so every theorem stated
  under \<open>host_ok\<close> applies to it, and the scenarios of the root theory run on it.
\<close>

record fbx_object =
  fo_name :: string
  fo_type :: obj_type
  fo_animated :: bool

record fbx_file =
  ff_objects :: "fbx_object list"
  ff_actions :: "string list"

definition next_ident :: "scene \<Rightarrow> ident" where
  "next_ident s = Suc (foldr max (map ob_id (objects s) @ map act_id (actions s)) 0)"

fun fresh_actions :: "ident \<Rightarrow> string list \<Rightarrow> baction list" where
  "fresh_actions n [] = []"
| "fresh_actions n (nm # nms) = \<lparr>act_id = n, act_name = nm\<rparr> # fresh_actions (Suc n) nms"

fun fresh_objects :: "ident \<Rightarrow> ident option \<Rightarrow> fbx_object list \<Rightarrow> bobject list" where
  "fresh_objects n first [] = []"
| "fresh_objects n first (fo # fos) =
     \<lparr>ob_id = n, ob_name = fo_name fo, ob_type = fo_type fo,
      ob_anim = (if fo_animated fo then Some \<lparr>ad_action = first\<rparr> else None),
      ob_select = True\<rparr> # fresh_objects (Suc n) first fos"

definition fake_import :: "(path \<Rightarrow> fbx_file option) \<Rightarrow> path \<Rightarrow> scene \<Rightarrow> scene option" where
  "fake_import files p s =
     (case files p of
        None \<Rightarrow> None
      | Some f \<Rightarrow>
          let n = next_ident s;
              acts = fresh_actions n (ff_actions f);
              first = (case acts of [] \<Rightarrow> None | a # _ \<Rightarrow> Some (act_id a));
              objs = fresh_objects (n + length acts) first (ff_objects f)
          in Some \<lparr>objects = map unsel (objects s) @ objs, actions = actions s @ acts\<rparr>)"

definition fake_host :: "path \<Rightarrow> (path \<Rightarrow> fbx_file option) \<Rightarrow> host" where
  "fake_host cwd files = \<lparr>h_cwd = cwd, h_import = fake_import files, h_export_ok = (\<lambda>_ _ _. True)\<rparr>"

subsection \<open>The scripted host keeps the contract\<close>

lemma foldr_max_ge: "x \<in> set xs \<Longrightarrow> x \<le> foldr max xs (0::nat)"
  by (induction xs) auto

lemma next_ident_objects: "i \<in> object_ids s \<Longrightarrow> i < next_ident s"
  using foldr_max_ge[of i "map ob_id (objects s) @ map act_id (actions s)"]
  by (simp add: next_ident_def object_ids_def)

lemma next_ident_actions: "i \<in> action_ids s \<Longrightarrow> i < next_ident s"
  using foldr_max_ge[of i "map ob_id (objects s) @ map act_id (actions s)"]
  by (simp add: next_ident_def action_ids_def)

lemma fresh_actions_ids: "map act_id (fresh_actions n nms) = [n..<n + length nms]"
  by (induction nms arbitrary: n) (auto simp: upt_conv_Cons simp del: upt_Suc)

lemma fresh_objects_ids: "map ob_id (fresh_objects n first fos) = [n..<n + length fos]"
  by (induction fos arbitrary: n) (auto simp: upt_conv_Cons simp del: upt_Suc)

lemma fake_import_extends:
  assumes "wf_scene s" "fake_import files p s = Some s'"
  shows "import_extends s s'"
proof -
  obtain f where f: "files p = Some f" using assms(2) by (auto simp: fake_import_def split: option.splits)
  define n where "n = next_ident s"
  define acts where "acts = fresh_actions n (ff_actions f)"
  define first where "first = (case acts of [] \<Rightarrow> None | a # _ \<Rightarrow> Some (act_id a))"
  define objs where "objs = fresh_objects (n + length acts) first (ff_objects f)"
  have s': "s' = \<lparr>objects = map unsel (objects s) @ objs, actions = actions s @ acts\<rparr>"
    using assms(2) f by (simp add: fake_import_def n_def acts_def first_def objs_def Let_def)
  have new_obj: "ob_id ob \<notin> object_ids s" if "ob \<in> set objs" for ob
  proof -
    have "ob_id ob \<in> set (map ob_id objs)" using that by simp
    then have "n \<le> ob_id ob" by (simp add: objs_def fresh_objects_ids)
    then show ?thesis using next_ident_objects n_def by fastforce
  qed
  have new_act: "act_id a \<notin> action_ids s" if "a \<in> set acts" for a
  proof -
    have "act_id a \<in> set (map act_id acts)" using that by simp
    then have "n \<le> act_id a" by (simp add: acts_def fresh_actions_ids)
    then show ?thesis using next_ident_actions n_def by fastforce
  qed
  have dob: "distinct (map ob_id (objects s'))"
  proof -
    have "set (map ob_id (objects s)) \<inter> set (map ob_id objs) = {}"
    unfolding disjoint_iff proof (intro allI impI notI)
      fix x assume x1: "x \<in> set (map ob_id (objects s))" and x2: "x \<in> set (map ob_id objs)"
      from x2 obtain ob where "ob \<in> set objs" "x = ob_id ob" by auto
      with new_obj[of ob] x1 show False by (simp add: object_ids_def)
    qed
    moreover have "distinct (map ob_id objs)" by (simp add: objs_def fresh_objects_ids)
    moreover have "map ob_id (objects s') = map ob_id (objects s) @ map ob_id objs"
      by (simp add: s' comp_def)
    ultimately show ?thesis
      using assms(1) by (simp add: wf_scene_def)
  qed
  have dact: "distinct (map act_id (actions s'))"
  proof -
    have "set (map act_id (actions s)) \<inter> set (map act_id acts) = {}"
    unfolding disjoint_iff proof (intro allI impI notI)
      fix x assume x1: "x \<in> set (map act_id (actions s))" and x2: "x \<in> set (map act_id acts)"
      from x2 obtain a where "a \<in> set acts" "x = act_id a" by auto
      with new_act[of a] x1 show False by (simp add: action_ids_def)
    qed
    then show ?thesis
      using assms(1) by (simp add: s' wf_scene_def acts_def fresh_actions_ids)
  qed
  have "filter (\<lambda>ob. ob_id ob \<in> object_ids s) objs = []"
    using new_obj by (simp add: filter_empty_conv)
  moreover have "filter (\<lambda>ob. ob_id ob \<in> object_ids s) (map unsel (objects s)) = map unsel (objects s)"
    by (simp add: object_ids_def)
  moreover have "filter (\<lambda>a. act_id a \<in> action_ids s) acts = []"
    using new_act by (simp add: filter_empty_conv)
  moreover have "filter (\<lambda>a. act_id a \<in> action_ids s) (actions s) = actions s"
    by (simp add: action_ids_def)
  ultimately show ?thesis
    using dob dact by (simp add: import_extends_def wf_scene_def s' comp_def)
qed

lemma fake_host_ok: "host_ok (fake_host cwd files)"
  by (auto simp: host_ok_def fake_host_def intro: fake_import_extends)

end
