(* ===== verification/Argparse.thy ===== *)
theory Argparse
  imports PyLib
begin

text \<open>
  The part of Python 3.11's \<open>argparse\<close> (as of 3.11.10) the two scripts use: a parser built from
  \<open>store\<close>, \<open>append\<close> and \<open>help\<close> actions that take one value (or none, for help),
  with long options, the single short option \<open>-h\<close> and positionals of one value each;
  \<open>allow_abbrev\<close> and \<open>prefix_chars\<close> keep their defaults. The definitions follow
  \<open>ArgumentParser._parse_known_args\<close>: every token is first classified as an option
  (\<open>_parse_optional\<close>, with \<open>_get_option_tuples\<close> for abbreviations and the
  \<open>=value\<close> form), a plain argument, or the separator \<open>--\<close>; then the tokens are
  consumed from left to right, options with their values (\<open>consume_optional\<close>) and runs
  of plain arguments by the positionals (\<open>consume_positionals\<close>, with the regular
  expression \<open>(-*A-*)\<close> per positional); finally the required actions are checked and
  the left-over tokens rejected (\<open>parse_args\<close>). The namespace is a map from
  destinations to values.
\<close>

datatype act_kind = Store | Append | Help

text \<open>A value of the namespace: \<open>None\<close>, a string, or a list.\<close>

datatype arg_val = VNone | VStr string | VList "arg_val list"

record arg_action =
  aa_strings :: "string list"
  aa_dest :: string
  aa_kind :: act_kind
  aa_required :: bool
  aa_default :: arg_val

type_synonym namespace = "string \<Rightarrow> arg_val option"

text \<open>The \<open>-h/--help\<close> action every \<open>ArgumentParser\<close> adds first.\<close>

definition help_action :: arg_action where
  "help_action =
     \<lparr>aa_strings = [''-h'', ''--help''], aa_dest = ''help'', aa_kind = Help, aa_required = False,
      aa_default = VNone\<rparr>"

text \<open>\<open>_option_string_actions\<close>: the option strings in the order they were added.\<close>

definition option_pairs :: "arg_action list \<Rightarrow> (arg_action \<times> string) list" where
  "option_pairs p = concat (map (\<lambda>a. map (Pair a) (aa_strings a)) p)"

definition lookup_option :: "arg_action list \<Rightarrow> string \<Rightarrow> arg_action option" where
  "lookup_option p s = map_option fst (find (\<lambda>x. snd x = s) (option_pairs p))"

definition positionals :: "arg_action list \<Rightarrow> arg_action list" where
  "positionals p = filter (\<lambda>a. aa_strings a = []) p"

text \<open>\<open>_get_action_name\<close>.\<close>

definition action_name :: "arg_action \<Rightarrow> string" where
  "action_name a = (if aa_strings a \<noteq> [] then join_with ''/'' (aa_strings a) else aa_dest a)"

text \<open>\<open>s.split(c, 1)\<close> for a string that contains \<open>c\<close>.\<close>

definition split_once :: "char \<Rightarrow> string \<Rightarrow> string \<times> string" where
  "split_once c t = (let pre = takeWhile (\<lambda>x. x \<noteq> c) t in (pre, drop (Suc (length pre)) t))"

abbreviation split_eq :: "string \<Rightarrow> string \<times> string" where
  "split_eq \<equiv> split_once CHR ''=''"

subsection \<open>Classifying the tokens\<close>

text \<open>
  \<open>_negative_number_matcher\<close>, the expression \<open>^-\d+$|^-\d*\.\d+$\<close>; Python's \<open>$\<close>
  also matches before a final newline.
\<close>

definition all_digits :: "string \<Rightarrow> bool" where
  "all_digits s = list_all (\<lambda>c. c \<in> set ''0123456789'') s"

definition num_body :: "string \<Rightarrow> bool" where
  "num_body b =
     (if b \<noteq> [] \<and> all_digits b then True
      else let (a, c) = split_once CHR ''.'' b in
        CHR ''.'' \<in> set b \<and> all_digits a \<and> c \<noteq> [] \<and> all_digits c)"

definition neg_number :: "string \<Rightarrow> bool" where
  "neg_number s =
     (case s of
        [] \<Rightarrow> False
      | c # r \<Rightarrow> c = CHR ''-'' \<and>
          num_body (if r \<noteq> [] \<and> last r = CHR 0x0A then butlast r else r))"

definition has_neg_options :: "arg_action list \<Rightarrow> bool" where
  "has_neg_options p = list_ex (\<lambda>x. neg_number (snd x)) (option_pairs p)"

text \<open>
  \<open>_get_option_tuples\<close> for a token of at least two characters starting with \<open>-\<close>:
  a token starting with \<open>--\<close> matches the option strings it abbreviates (up to its
  \<open>=\<close>); a token with a single dash matches an option string equal to its first two
  characters, with the rest as its value, or one it is a prefix of.
\<close>

definition option_tuples ::
  "arg_action list \<Rightarrow> string \<Rightarrow> (arg_action \<times> string \<times> (bool \<times> string) option) list" where
  "option_tuples p t =
     (if t ! 1 = CHR ''-'' then
        let (pre, e) = (if CHR ''='' \<in> set t then (fst (split_eq t), Some (True, snd (split_eq t))) else (t, None))
        in map (\<lambda>x. (fst x, snd x, e)) (filter (\<lambda>x. startswith (snd x) pre) (option_pairs p))
      else
        map (\<lambda>x. (fst x, snd x, if snd x = take 2 t then Some (False, drop 2 t) else None))
          (filter (\<lambda>x. snd x = take 2 t \<or> startswith (snd x) t) (option_pairs p)))"

text \<open>
  The class of a token: a plain argument (\<open>A\<close>), the separator (\<open>-\<close>), or an option
  (\<open>O\<close>) with its action (\<open>None\<close> for an unknown option), the option string it
  matched and its explicit value, if any, with whether it followed an \<open>=\<close> (Python's
  \<open>sep\<close>).
\<close>

datatype tok = TArg | TDash | TOpt "arg_action option" string "(bool \<times> string) option"

text \<open>\<open>_parse_optional\<close>.\<close>

definition parse_optional :: "arg_action list \<Rightarrow> string \<Rightarrow> arg_error + tok" where
  "parse_optional p t =
     (if t = [] then Inr TArg
      else if hd t \<noteq> CHR ''-'' then Inr TArg
      else case lookup_option p t of
        Some a \<Rightarrow> Inr (TOpt (Some a) t None)
      | None \<Rightarrow>
        if length t = 1 then Inr TArg
        else case (if CHR ''='' \<in> set t then lookup_option p (fst (split_eq t)) else None) of
          Some a \<Rightarrow> Inr (TOpt (Some a) (fst (split_eq t)) (Some (True, snd (split_eq t))))
        | None \<Rightarrow>
          (case option_tuples p t of
             [] \<Rightarrow>
               if neg_number t \<and> \<not> has_neg_options p then Inr TArg
               else if CHR '' '' \<in> set t then Inr TArg
               else Inr (TOpt None t None)
           | [x] \<Rightarrow> Inr (TOpt (Some (fst x)) (fst (snd x)) (snd (snd x)))
           | xs \<Rightarrow> Inl (Ambiguous t (map (\<lambda>x. fst (snd x)) xs))))"

text \<open>The loop of \<open>_parse_known_args\<close> that builds the pattern: all tokens after the
  first \<open>--\<close> are plain arguments.\<close>

fun classify :: "arg_action list \<Rightarrow> string list \<Rightarrow> arg_error + tok list" where
  "classify p [] = Inr []"
| "classify p (t # ts) =
     (if t = ''--'' then Inr (TDash # map (\<lambda>_. TArg) ts)
      else case parse_optional p t of
        Inl e \<Rightarrow> Inl e
      | Inr k \<Rightarrow> (case classify p ts of Inl e \<Rightarrow> Inl e | Inr ks \<Rightarrow> Inr (k # ks)))"

datatype pat = PA | PO | PD

fun pat_of :: "tok \<Rightarrow> pat" where
  "pat_of TArg = PA"
| "pat_of TDash = PD"
| "pat_of (TOpt _ _ _) = PO"

definition pats :: "(string \<times> tok) list \<Rightarrow> pat list" where
  "pats args = map (\<lambda>x. pat_of (snd x)) args"

subsection \<open>Matching values\<close>

text \<open>
  The regular expression \<open>(-*A-*)\<close> of one positional at the start of a pattern: the
  number of tokens it takes. \<open>_match_arguments_partial\<close> matches as many positionals
  as it can, each greedily.
\<close>

definition grp :: "pat list \<Rightarrow> nat option" where
  "grp ps =
     (let n = length (takeWhile (\<lambda>c. c = PD) ps) in
      case drop n ps of
        PA # rest \<Rightarrow> Some (n + 1 + length (takeWhile (\<lambda>c. c = PD) rest))
      | _ \<Rightarrow> None)"

fun match_partial :: "nat \<Rightarrow> pat list \<Rightarrow> nat list" where
  "match_partial 0 ps = []"
| "match_partial (Suc k) ps = (case grp ps of None \<Rightarrow> [] | Some n \<Rightarrow> n # match_partial k (drop n ps))"

text \<open>
  \<open>_match_argument\<close> for an option: its pattern has the dashes removed, so a value
  must be the next token and be a plain argument; help takes none.
\<close>

definition opt_count :: "arg_action \<Rightarrow> pat list \<Rightarrow> nat option" where
  "opt_count a ps =
     (if aa_kind a = Help then Some 0 else case ps of PA # _ \<Rightarrow> Some 1 | _ \<Rightarrow> None)"

text \<open>\<open>_get_values\<close>: the first \<open>--\<close> is removed from a positional's strings; one
  string gives a string, anything else a list.\<close>

definition get_values :: "arg_action \<Rightarrow> string list \<Rightarrow> arg_val" where
  "get_values a args =
     (let args' = (if aa_strings a = [] then remove1 ''--'' args else args) in
      if aa_kind a \<noteq> Help \<and> length args' = 1 then VStr (hd args') else VList (map VStr args'))"

text \<open>\<open>_AppendAction\<close>: a copy of the current list with the value appended.\<close>

fun append_val :: "arg_val option \<Rightarrow> arg_val \<Rightarrow> arg_val" where
  "append_val (Some (VList xs)) v = VList (xs @ [v])"
| "append_val _ v = VList [v]"

subsection \<open>Consuming the tokens\<close>

record pstate =
  ps_ns :: namespace
  ps_extras :: "string list"
  ps_pos :: "arg_action list"
  ps_seen :: "arg_action list"

text \<open>How parsing stops early: help was printed (exit 0) or \<open>parser.error\<close> (exit 2).\<close>

datatype stop = StopHelp | StopError arg_error

text \<open>\<open>take_action\<close>.\<close>

definition take_action :: "arg_action \<Rightarrow> string list \<Rightarrow> pstate \<Rightarrow> stop + pstate" where
  "take_action a args st =
     (let v = get_values a args; st1 = st\<lparr>ps_seen := ps_seen st @ [a]\<rparr> in
      case aa_kind a of
        Help \<Rightarrow> Inl StopHelp
      | Store \<Rightarrow> Inr (st1\<lparr>ps_ns := (ps_ns st)(aa_dest a \<mapsto> v)\<rparr>)
      | Append \<Rightarrow> Inr (st1\<lparr>ps_ns := (ps_ns st)(aa_dest a \<mapsto> append_val (ps_ns st (aa_dest a)) v)\<rparr>))"

fun take_actions :: "(arg_action \<times> string list) list \<Rightarrow> pstate \<Rightarrow> stop + pstate" where
  "take_actions [] st = Inr st"
| "take_actions ((a, args) # xs) st =
     (case take_action a args st of Inl s \<Rightarrow> Inl s | Inr st' \<Rightarrow> take_actions xs st')"

text \<open>
  The loop of \<open>consume_optional\<close> for an option at index \<open>i\<close>: the number of tokens
  after \<open>i\<close> it uses, the actions to take with their values, and the tokens it sends to
  the extras. A single-dash flag with an attached tail (\<open>-hh\<close>) is read as several
  flags; a tail that is not a flag goes to the extras.
\<close>

function opt_tuples ::
  "arg_action list \<Rightarrow> (string \<times> tok) list \<Rightarrow> nat \<Rightarrow> arg_action \<Rightarrow> string \<Rightarrow>
   (bool \<times> string) option \<Rightarrow> arg_error + nat \<times> (arg_action \<times> string list) list \<times> string list" where
  "opt_tuples p args i a ostr None =
     (case opt_count a (pats (drop (Suc i) args)) of
        None \<Rightarrow> Inl (ExpectedOne (action_name a))
      | Some n \<Rightarrow> Inr (n, [(a, map fst (take n (drop (Suc i) args)))], []))"
| "opt_tuples p args i a ostr (Some (sep, e)) =
     (if aa_kind a \<noteq> Help then Inr (0, [(a, [e])], [])
      else if ostr ! 1 \<noteq> CHR ''-'' \<and> e \<noteq> [] then
        (if sep \<or> hd e = CHR ''-'' then Inl (IgnoredExplicit (action_name a) e)
         else case lookup_option p [hd ostr, hd e] of
           Some a' \<Rightarrow>
             (case opt_tuples p args i a' [hd ostr, hd e]
                     (if tl e = [] then None
                      else if hd (tl e) = CHR ''='' then Some (True, tl (tl e))
                      else Some (False, tl e)) of
                Inl err \<Rightarrow> Inl err
              | Inr (n, ts, xs) \<Rightarrow> Inr (n, (a, []) # ts, xs))
         | None \<Rightarrow> Inr (0, [(a, [])], [hd ostr # e]))
      else Inl (IgnoredExplicit (action_name a) e))"
  by pat_completeness auto
termination
  by (relation "measure (\<lambda>(p, args, i, a, ostr, e). case e of None \<Rightarrow> 0 | Some (_, e) \<Rightarrow> Suc (length e))")
     (auto simp: length_greater_0_conv)

text \<open>\<open>consume_optional\<close>: an unknown option goes to the extras.\<close>

definition consume_optional ::
  "arg_action list \<Rightarrow> (string \<times> tok) list \<Rightarrow> nat \<Rightarrow> pstate \<Rightarrow> stop + nat \<times> pstate" where
  "consume_optional p args i st =
     (case snd (args ! i) of
        TOpt (Some a) ostr e \<Rightarrow>
          (case opt_tuples p args i a ostr e of
             Inl err \<Rightarrow> Inl (StopError err)
           | Inr (n, ts, xs) \<Rightarrow>
               (case take_actions ts (st\<lparr>ps_extras := ps_extras st @ xs\<rparr>) of
                  Inl s \<Rightarrow> Inl s
                | Inr st' \<Rightarrow> Inr (n, st')))
      | _ \<Rightarrow> Inr (0, st\<lparr>ps_extras := ps_extras st @ [fst (args ! i)]\<rparr>))"

fun pos_actions :: "arg_action list \<Rightarrow> nat list \<Rightarrow> string list \<Rightarrow> (arg_action \<times> string list) list" where
  "pos_actions (a # as) (n # ns) ts = (a, take n ts) # pos_actions as ns (drop n ts)"
| "pos_actions _ _ _ = []"

text \<open>\<open>consume_positionals\<close> at index \<open>i\<close>: the number of tokens used.\<close>

definition consume_positionals ::
  "(string \<times> tok) list \<Rightarrow> nat \<Rightarrow> pstate \<Rightarrow> stop + nat \<times> pstate" where
  "consume_positionals args i st =
     (let counts = match_partial (length (ps_pos st)) (pats (drop i args)) in
      case take_actions (pos_actions (ps_pos st) counts (map fst (drop i args))) st of
        Inl s \<Rightarrow> Inl s
      | Inr st' \<Rightarrow> Inr (sum_list counts, st'\<lparr>ps_pos := drop (length counts) (ps_pos st)\<rparr>))"

fun is_opt :: "tok \<Rightarrow> bool" where
  "is_opt (TOpt _ _ _) = True"
| "is_opt _ = False"

text \<open>The main loop of \<open>_parse_known_args\<close>, from index \<open>i\<close>.\<close>

function consume_loop ::
  "arg_action list \<Rightarrow> (string \<times> tok) list \<Rightarrow> nat \<Rightarrow> pstate \<Rightarrow> stop + pstate" where
  "consume_loop p args i st =
     (case filter (\<lambda>j. is_opt (snd (args ! j))) [i..<length args] of
        [] \<Rightarrow>
          (case consume_positionals args i st of
             Inl s \<Rightarrow> Inl s
           | Inr (c, st') \<Rightarrow> Inr (st'\<lparr>ps_extras := ps_extras st' @ map fst (drop (i + c) args)\<rparr>))
      | nxt # _ \<Rightarrow>
          (if i \<noteq> nxt then
             (case consume_positionals args i st of
                Inl s \<Rightarrow> Inl s
              | Inr (c, st1) \<Rightarrow>
                  if 0 < c then consume_loop p args (i + c) st1
                  else
                    (case consume_optional p args nxt
                            (st1\<lparr>ps_extras := ps_extras st1 @ map fst (take (nxt - i) (drop i args))\<rparr>) of
                       Inl s \<Rightarrow> Inl s
                     | Inr (n, st3) \<Rightarrow> consume_loop p args (Suc nxt + n) st3))
           else
             (case consume_optional p args i st of
                Inl s \<Rightarrow> Inl s
              | Inr (n, st3) \<Rightarrow> consume_loop p args (Suc i + n) st3)))"
  by pat_completeness auto
termination
proof (relation "measure (\<lambda>(p, args, i, st). length args - i)", goal_cases)
  case 1
  show ?case by simp
next
  case (2 p args i st nxt js)
  then show ?case by (auto dest!: filter_upt_Cons)
next
  case (3 p args i st nxt js)
  then show ?case by (auto dest!: filter_upt_Cons)
next
  case (4 p args i st nxt js)
  then show ?case by (auto dest!: filter_upt_Cons)
qed

declare consume_loop.simps [simp del]

text \<open>The check after the loop: required actions not seen, then left-over tokens.\<close>

definition finish :: "arg_action list \<Rightarrow> pstate \<Rightarrow> stop + namespace" where
  "finish p st =
     (let missing = map action_name (filter (\<lambda>a. aa_required a \<and> a \<notin> set (ps_seen st)) p) in
      if missing \<noteq> [] then Inl (StopError (RequiredMissing missing))
      else if ps_extras st \<noteq> [] then Inl (StopError (Unrecognized (ps_extras st)))
      else Inr (ps_ns st))"

definition defaults :: "arg_action list \<Rightarrow> namespace" where
  "defaults p = map_of (map (\<lambda>a. (aa_dest a, aa_default a)) (filter (\<lambda>a. aa_kind a \<noteq> Help) p))"

definition init_state :: "arg_action list \<Rightarrow> pstate" where
  "init_state p = \<lparr>ps_ns = defaults p, ps_extras = [], ps_pos = positionals p, ps_seen = []\<rparr>"

text \<open>\<open>parser.parse_args(argv)\<close>.\<close>

definition parse_args :: "arg_action list \<Rightarrow> string list \<Rightarrow> stop + namespace" where
  "parse_args p argv =
     (case classify p argv of
        Inl e \<Rightarrow> Inl (StopError e)
      | Inr ks \<Rightarrow>
          (case consume_loop p (zip argv ks) 0 (init_state p) of
             Inl s \<Rightarrow> Inl s
           | Inr st \<Rightarrow> finish p st))"

subsection \<open>Runs of options with attached values\<close>

text \<open>
  An option token with an attached value (\<open>--opt=value\<close>) for a store or append
  action, and the effect of a sequence of them on the parser's state.
\<close>

definition explicit_opt :: "string \<times> tok \<Rightarrow> bool" where
  "explicit_opt x =
     (case snd x of
        TOpt (Some a) s (Some e) \<Rightarrow> aa_kind a \<noteq> Help
      | _ \<Rightarrow> False)"

fun apply_explicit :: "(string \<times> tok) list \<Rightarrow> pstate \<Rightarrow> pstate" where
  "apply_explicit [] st = st"
| "apply_explicit (x # xs) st =
     apply_explicit xs
       (case snd x of
          TOpt (Some a) s (Some (sep, v)) \<Rightarrow>
            (case take_action a [v] st of Inr st' \<Rightarrow> st' | Inl _ \<Rightarrow> st)
        | _ \<Rightarrow> st)"

text \<open>Every action a token names is an option of the parser.\<close>

definition tok_in :: "arg_action list \<Rightarrow> tok \<Rightarrow> bool" where
  "tok_in p k = (case k of TOpt (Some a) s e \<Rightarrow> a \<in> set p \<and> aa_strings a \<noteq> [] | _ \<Rightarrow> True)"

text \<open>Two classified argument lists that differ only in the strings of tokens that name a
  known option (an abbreviation \<open>--mo\<close> in place of \<open>--model\<close>).\<close>

definition same_but_opts :: "(string \<times> tok) list \<Rightarrow> (string \<times> tok) list \<Rightarrow> bool" where
  "same_but_opts xs ys =
     (map snd xs = map snd ys \<and>
      list_all2 (\<lambda>x y. fst x = fst y \<or> (case snd x of TOpt (Some _) _ _ \<Rightarrow> True | _ \<Rightarrow> False)) xs ys)"

subsection \<open>Facts about the parser\<close>

lemma split_once_append: "c \<notin> set pre \<Longrightarrow> split_once c (pre @ c # post) = (pre, post)"
  by (simp add: split_once_def takeWhile_append2)

lemma match_partial_Nil [simp]: "match_partial k [] = []"
  by (cases k) (simp_all add: grp_def)

lemma consume_positionals_end:
  "length args \<le> i \<Longrightarrow> consume_positionals args i st = Inr (0, st)"
  by (simp add: consume_positionals_def pats_def)

lemma consume_loop_end:
  assumes "length args \<le> i"
  shows "consume_loop p args i st = Inr st"
proof -
  have "consume_positionals args i st = Inr (0, st)" using assms by (rule consume_positionals_end)
  then show ?thesis using assms by (subst consume_loop.simps) simp
qed

lemma take_action_option:
  "aa_kind a \<noteq> Help \<Longrightarrow> aa_strings a \<noteq> [] \<Longrightarrow>
   take_action a [v] st =
     Inr (st\<lparr>ps_seen := ps_seen st @ [a],
             ps_ns := (ps_ns st)(aa_dest a \<mapsto>
               (if aa_kind a = Append then append_val (ps_ns st (aa_dest a)) (VStr v) else VStr v))\<rparr>)"
  by (cases "aa_kind a") (simp_all add: take_action_def get_values_def)

lemma take_action_not_help: "aa_kind a \<noteq> Help \<Longrightarrow> \<exists>st'. take_action a vs st = Inr st'"
  by (cases "aa_kind a") (simp_all add: take_action_def)

lemma filter_opt_first:
  "i < length args \<Longrightarrow> is_opt (snd (args ! i)) \<Longrightarrow>
   filter (\<lambda>j. is_opt (snd (args ! j))) [i..<length args] =
   i # filter (\<lambda>j. is_opt (snd (args ! j))) [Suc i..<length args]"
  by (simp add: upt_conv_Cons)

lemma consume_loop_explicit_step:
  assumes "i < length args" "snd (args ! i) = TOpt (Some a) s (Some (sep, v))" "aa_kind a \<noteq> Help"
    and "take_action a [v] st = Inr st1"
  shows "consume_loop p args i st = consume_loop p args (Suc i) st1"
proof -
  have "is_opt (snd (args ! i))" using assms(2) by simp
  note F = filter_opt_first[OF assms(1) this]
  show ?thesis
    by (subst consume_loop.simps) (simp add: F consume_optional_def assms(2,3,4))
qed

text \<open>A run of options with attached values is consumed one token at a time.\<close>

lemma consume_loop_explicit:
  "list_all explicit_opt (drop i args) \<Longrightarrow>
   consume_loop p args i st = Inr (apply_explicit (drop i args) st)"
proof (induction "length args - i" arbitrary: i st)
  case 0
  then show ?case by (simp add: consume_loop_end)
next
  case (Suc n)
  then have i: "i < length args" by simp
  then have d: "drop i args = args ! i # drop (Suc i) args" by (simp add: Cons_nth_drop_Suc)
  with Suc.prems obtain a s sep v where
    tok: "snd (args ! i) = TOpt (Some a) s (Some (sep, v))" and k: "aa_kind a \<noteq> Help"
    by (auto simp: explicit_opt_def split: tok.splits option.splits)
  obtain st1 where st1: "take_action a [v] st = Inr st1" using take_action_not_help[OF k] by blast
  have "list_all explicit_opt (drop (Suc i) args)" using Suc.prems d by simp
  then have "consume_loop p args (Suc i) st1 = Inr (apply_explicit (drop (Suc i) args) st1)"
    using Suc.hyps(1)[of "Suc i"] Suc.hyps(2) by simp
  then show ?case
    using consume_loop_explicit_step[OF i tok k st1] by (simp add: d tok st1)
qed

lemma apply_explicit_append:
  "apply_explicit (xs @ ys) st = apply_explicit ys (apply_explicit xs st)"
  by (induction xs arbitrary: st) simp_all

lemma lookup_option_None:
  "list_all (\<lambda>x. CHR ''='' \<notin> set (snd x)) (option_pairs p) \<Longrightarrow> CHR ''='' \<in> set t \<Longrightarrow>
   lookup_option p t = None"
  by (auto simp: lookup_option_def find_None_iff list_all_iff)

text \<open>An option string followed by \<open>=\<close> and a value is that option with that value.\<close>

lemma parse_optional_explicit:
  assumes "lookup_option p s = Some a" "CHR ''='' \<notin> set s" "s \<noteq> []" "hd s = CHR ''-''"
    and "list_all (\<lambda>x. CHR ''='' \<notin> set (snd x)) (option_pairs p)"
  shows "parse_optional p (s @ CHR ''='' # v) = Inr (TOpt (Some a) s (Some (True, v)))"
proof -
  have "lookup_option p (s @ CHR ''='' # v) = None"
    using assms(5) by (rule lookup_option_None) simp
  then show ?thesis
    using assms(1-4) by (simp add: parse_optional_def split_once_append)
qed

subsection \<open>Invariants of the consuming loop\<close>

lemma lookup_option_in: "lookup_option p s = Some a \<Longrightarrow> a \<in> set p \<and> aa_strings a \<noteq> []"
  by (auto simp: lookup_option_def option_pairs_def dest!: find_Some_iff[THEN iffD1] nth_mem)

lemma option_tuples_in: "x \<in> set (option_tuples p t) \<Longrightarrow> fst x \<in> set p \<and> aa_strings (fst x) \<noteq> []"
  by (auto simp: option_tuples_def option_pairs_def split: if_splits prod.splits)

lemma parse_optional_in: "parse_optional p t = Inr k \<Longrightarrow> tok_in p k"
proof -
  assume h: "parse_optional p t = Inr k"
  show ?thesis
  proof (cases "t = [] \<or> hd t \<noteq> CHR ''-''")
    case True
    then have "k = TArg" using h by (cases "t = []") (simp_all add: parse_optional_def)
    then show ?thesis by (simp add: tok_in_def)
  next
    case False
    show ?thesis
    proof (cases "lookup_option p t")
      case (Some a)
      then show ?thesis using h False lookup_option_in[OF Some] by (auto simp: parse_optional_def tok_in_def)
    next
      case None
      show ?thesis
      proof (cases "length t = 1")
        case True
        then show ?thesis using h False None by (simp add: parse_optional_def tok_in_def)
      next
        case len: False
        show ?thesis
        proof (cases "if CHR ''='' \<in> set t then lookup_option p (fst (split_eq t)) else None")
          case (Some a)
          then have "a \<in> set p \<and> aa_strings a \<noteq> []" by (auto split: if_splits dest: lookup_option_in)
          then show ?thesis using h False None len Some by (auto simp: parse_optional_def tok_in_def)
        next
          case None2: None
          show ?thesis
          proof (cases "option_tuples p t")
            case Nil
            then show ?thesis using h False None len None2
              by (auto simp: parse_optional_def tok_in_def split: if_splits)
          next
            case (Cons x xs)
            then have x: "fst x \<in> set p \<and> aa_strings (fst x) \<noteq> []" using option_tuples_in[of x p t] by simp
            show ?thesis
            proof (cases xs)
              case Nil
              then show ?thesis using h False None len None2 Cons x
                by (auto simp: parse_optional_def tok_in_def)
            next
              case (Cons y ys)
              then show ?thesis using h False None len None2 \<open>option_tuples p t = x # xs\<close>
                by (simp add: parse_optional_def)
            qed
          qed
        qed
      qed
    qed
  qed
qed

lemma classify_in: "classify p argv = Inr ks \<Longrightarrow> list_all (tok_in p) ks"
proof (induction argv arbitrary: ks)
  case Nil
  then show ?case by simp
next
  case (Cons t ts)
  show ?case
  proof (cases "t = ''--''")
    case True
    then show ?thesis using Cons.prems by (auto simp: tok_in_def list_all_iff)
  next
    case False
    with Cons.prems obtain k ks' where k: "parse_optional p t = Inr k"
      and r: "classify p ts = Inr ks'" and ks: "ks = k # ks'"
      by (auto split: sum.splits)
    show ?thesis using parse_optional_in[OF k] Cons.IH[OF r] ks by simp
  qed
qed

text \<open>The actions \<open>consume_optional\<close> takes are the parser's, each with one value unless
  it is help.\<close>

lemma opt_count_Some:
  "opt_count a ps = Some n \<Longrightarrow> aa_kind a \<noteq> Help \<Longrightarrow> n = 1 \<and> ps \<noteq> []"
  by (auto simp: opt_count_def split: list.splits pat.splits)

lemma opt_tuples_shape:
  "opt_tuples p args i a ostr e = Inr (n, ts, xs) \<Longrightarrow> a \<in> set p \<Longrightarrow>
   list_all (\<lambda>x. fst x \<in> set p \<and> (aa_kind (fst x) \<noteq> Help \<longrightarrow> length (snd x) = 1)) ts"
proof (induction p args i a ostr e arbitrary: n ts xs rule: opt_tuples.induct)
  case (1 p args i a ostr)
  then obtain m where m: "opt_count a (pats (drop (Suc i) args)) = Some m"
    and ts: "ts = [(a, map fst (take m (drop (Suc i) args)))]"
    by (auto split: option.splits)
  have "aa_kind a \<noteq> Help \<Longrightarrow> length (map fst (take m (drop (Suc i) args))) = 1"
    using opt_count_Some[OF m] by (auto simp: pats_def)
  then show ?case using ts "1.prems"(2) by simp
next
  case (2 p args i a ostr sep e)
  show ?case
  proof (cases "aa_kind a = Help")
    case False
    then show ?thesis using "2.prems" by auto
  next
    case True
    show ?thesis
    proof (cases "lookup_option p [hd ostr, hd e]")
      case None
      then show ?thesis using "2.prems" True by (auto split: if_splits)
    next
      case (Some a')
      let ?e' = "if tl e = [] then None else if hd (tl e) = CHR ''='' then Some (True, tl (tl e)) else Some (False, tl e)"
      show ?thesis
      proof (cases "opt_tuples p args i a' [hd ostr, hd e] ?e'")
        case (Inl err)
        then show ?thesis using "2.prems" True Some by (auto split: if_splits)
      next
        case (Inr r)
        obtain m ts' xs' where r: "r = (m, ts', xs')" by (cases r) auto
        have ts: "ts = (a, []) # ts'"
          using "2.prems"(1) True Some Inr r by (auto split: if_splits)
        have "list_all (\<lambda>x. fst x \<in> set p \<and> (aa_kind (fst x) \<noteq> Help \<longrightarrow> length (snd x) = 1)) ts'"
          using "2.IH"[OF _ _ _ Some, of m ts' xs'] "2.prems" True Inr r lookup_option_in[OF Some]
          by (auto split: if_splits)
        then show ?thesis using ts "2.prems"(2) True by simp
      qed
    qed
  qed
qed

lemma take_action_pos: "take_action a vs st = Inr st' \<Longrightarrow> ps_pos st' = ps_pos st \<and> ps_extras st' = ps_extras st"
  by (auto simp: take_action_def Let_def split: act_kind.splits)

lemma take_actions_inv:
  "take_actions ts st = Inr st' \<Longrightarrow> I st \<Longrightarrow>
   (\<And>s a vs s'. I s \<Longrightarrow> (a, vs) \<in> set ts \<Longrightarrow> take_action a vs s = Inr s' \<Longrightarrow> I s') \<Longrightarrow>
   I st' \<and> ps_pos st' = ps_pos st"
proof (induction ts arbitrary: st)
  case Nil
  then show ?case by simp
next
  case (Cons x ts)
  obtain a vs where x: "x = (a, vs)" by (cases x) auto
  from Cons.prems(1) x obtain st1 where st1: "take_action a vs st = Inr st1"
    and rest: "take_actions ts st1 = Inr st'"
    by (auto split: sum.splits)
  have I1: "I st1" using Cons.prems(3)[OF Cons.prems(2) _ st1] x by simp
  have step: "\<And>s a vs s'. I s \<Longrightarrow> (a, vs) \<in> set ts \<Longrightarrow> take_action a vs s = Inr s' \<Longrightarrow> I s'"
    using Cons.prems(3) by (meson list.set_intros(2))
  have "I st' \<and> ps_pos st' = ps_pos st1" by (rule Cons.IH[OF rest I1 step])
  then show ?case using take_action_pos[OF st1] by simp
qed

lemma consume_positionals_none:
  "consume_positionals args i st = Inr (c, st') \<Longrightarrow> ps_pos st = [] \<Longrightarrow> c = 0 \<and> st' = st"
  by (auto simp: consume_positionals_def)

lemma consume_optional_inv:
  assumes step: "\<And>st a vs st'. I st \<Longrightarrow> a \<in> set p \<Longrightarrow> (aa_kind a \<noteq> Help \<Longrightarrow> length vs = 1) \<Longrightarrow>
      take_action a vs st = Inr st' \<Longrightarrow> I st'"
    and ext: "\<And>st xs. I st \<Longrightarrow> I (st\<lparr>ps_extras := xs\<rparr>)"
    and toks: "list_all (tok_in p) (map snd args)" and i: "i < length args"
  shows "consume_optional p args i st = Inr (n, st') \<Longrightarrow> I st \<Longrightarrow> I st' \<and> ps_pos st' = ps_pos st"
proof -
  assume co: "consume_optional p args i st = Inr (n, st')" and I: "I st"
  show ?thesis
  proof (cases "snd (args ! i)")
    case (TOpt ao ostr e)
    show ?thesis
    proof (cases ao)
      case None
      then show ?thesis using co I TOpt ext by (auto simp: consume_optional_def)
    next
      case (Some a)
      have "args ! i \<in> set args" using i by (rule nth_mem)
      then have a: "a \<in> set p" using toks TOpt Some by (force simp: list_all_iff tok_in_def)
      from co TOpt Some obtain ts xs where ot: "opt_tuples p args i a ostr e = Inr (n, ts, xs)"
        and ta: "take_actions ts (st\<lparr>ps_extras := ps_extras st @ xs\<rparr>) = Inr st'"
        by (auto simp: consume_optional_def split: sum.splits prod.splits)
      note shape = opt_tuples_shape[OF ot a]
      have "I st' \<and> ps_pos st' = ps_pos (st\<lparr>ps_extras := ps_extras st @ xs\<rparr>)"
      proof (rule take_actions_inv[OF ta])
        show "I (st\<lparr>ps_extras := ps_extras st @ xs\<rparr>)" using ext I .
      next
        fix st0 b vs st1 assume "I st0" "(b, vs) \<in> set ts" "take_action b vs st0 = Inr st1"
        then show "I st1" using shape step by (fastforce simp: list_all_iff)
      qed
      then show ?thesis by simp
    qed
  qed (use co I ext in \<open>auto simp: consume_optional_def\<close>)
qed

text \<open>
  The loop keeps every invariant that its three kinds of step keep: an option consumed,
  positionals consumed, and tokens sent to the extras.
\<close>

lemma consume_loop_inv_gen:
  assumes opt: "\<And>j s n s'. I s \<Longrightarrow> j < length args \<Longrightarrow> consume_optional p args j s = Inr (n, s') \<Longrightarrow> I s'"
    and pos: "\<And>j s c s'. I s \<Longrightarrow> consume_positionals args j s = Inr (c, s') \<Longrightarrow> I s'"
    and ext: "\<And>s xs. I s \<Longrightarrow> I (s\<lparr>ps_extras := xs\<rparr>)"
  shows "consume_loop p args i st = Inr st' \<Longrightarrow> I st \<Longrightarrow> I st'"
proof (induction "length args - i" arbitrary: i st st' rule: less_induct)
  case less
  assume run: "consume_loop p args i st = Inr st'" and I: "I st"
  have rec: "I s'" if "i < j" "consume_loop p args j s = Inr s'" "I s" for j s s'
  proof -
    have "length args - j < length args - i \<or> length args \<le> j" using that(1) by linarith
    then show ?thesis
    proof
      assume "length args \<le> j"
      then show ?thesis using that(2,3) consume_loop_end by simp
    next
      assume "length args - j < length args - i"
      then show ?thesis using that(2,3) by (rule less(1))
    qed
  qed
  show "I st'"
  proof (cases "filter (\<lambda>j. is_opt (snd (args ! j))) [i..<length args]")
    case Nil
    with run obtain c s1 where "consume_positionals args i st = Inr (c, s1)"
        "st' = s1\<lparr>ps_extras := ps_extras s1 @ map fst (drop (i + c) args)\<rparr>"
      by (auto simp: consume_loop.simps split: sum.splits prod.splits)
    then show ?thesis using pos[OF I] ext by blast
  next
    case (Cons nxt js)
    then have nxt: "i \<le> nxt" "nxt < length args" by (auto dest: filter_upt_Cons)
    show ?thesis
    proof (cases "i = nxt")
      case True
      with run Cons obtain n s3 where "consume_optional p args i st = Inr (n, s3)"
          "consume_loop p args (Suc i + n) s3 = Inr st'"
        by (auto simp: consume_loop.simps split: sum.splits prod.splits)
      then show ?thesis using opt[OF I] rec[of "Suc i + n" s3 st'] nxt True by simp
    next
      case False
      from run Cons False obtain c s1 where cp: "consume_positionals args i st = Inr (c, s1)"
        by (auto simp: consume_loop.simps split: sum.splits prod.splits)
      have I1: "I s1" using pos[OF I cp] .
      show ?thesis
      proof (cases "0 < c")
        case True
        then have "consume_loop p args (i + c) s1 = Inr st'"
          using run Cons False cp by (simp add: consume_loop.simps)
        then show ?thesis using rec[of "i + c" s1 st'] True I1 by simp
      next
        case c0: False
        let ?s = "s1\<lparr>ps_extras := ps_extras s1 @ map fst (take (nxt - i) (drop i args))\<rparr>"
        from run Cons False cp c0 obtain n s3 where "consume_optional p args nxt ?s = Inr (n, s3)"
            "consume_loop p args (Suc nxt + n) s3 = Inr st'"
          by (auto simp: consume_loop.simps split: sum.splits prod.splits)
        then show ?thesis using opt[OF ext[OF I1]] rec[of "Suc nxt + n" s3 st'] nxt False by simp
      qed
    qed
  qed
qed

text \<open>
  For a parser without positionals, an invariant of the state that every action the
  parser may take keeps, and that the extras do not affect, holds at the end of the loop.
\<close>

lemma consume_loop_inv:
  assumes step: "\<And>st a vs st'. I st \<Longrightarrow> a \<in> set p \<Longrightarrow> (aa_kind a \<noteq> Help \<Longrightarrow> length vs = 1) \<Longrightarrow>
      take_action a vs st = Inr st' \<Longrightarrow> I st'"
    and ext: "\<And>st xs. I st \<Longrightarrow> I (st\<lparr>ps_extras := xs\<rparr>)"
    and toks: "list_all (tok_in p) (map snd args)"
  shows "consume_loop p args i st = Inr st' \<Longrightarrow> I st \<Longrightarrow> ps_pos st = [] \<Longrightarrow> I st' \<and> ps_pos st' = []"
proof -
  let ?J = "\<lambda>s. I s \<and> ps_pos s = []"
  have opt: "?J s'" if "?J s" "j < length args" "consume_optional p args j s = Inr (n, s')" for j s n s'
  proof -
    have Is: "I s" using that(1) by simp
    have "I s' \<and> ps_pos s' = ps_pos s"
      by (rule consume_optional_inv[where I = I and p = p and args = args and i = j and st = s and n = n and st' = s',
            OF step ext toks that(2) that(3) Is])
    then show ?thesis using that(1) by simp
  qed
  have pos: "?J s'" if "?J s" "consume_positionals args j s = Inr (c, s')" for j s c s'
    using consume_positionals_none[OF that(2)] that(1) by simp
  have ex: "?J (s\<lparr>ps_extras := xs\<rparr>)" if "?J s" for s xs using ext that by simp
  show "consume_loop p args i st = Inr st' \<Longrightarrow> I st \<Longrightarrow> ps_pos st = [] \<Longrightarrow> I st' \<and> ps_pos st' = []"
  proof -
    assume r: "consume_loop p args i st = Inr st'" and "I st" "ps_pos st = []"
    then have J: "?J st" by simp
    have "?J st'"
    proof (rule consume_loop_inv_gen[where I = ?J and p = p and args = args and i = i and st = st and st' = st'])
      fix j s n s' assume "?J s" "j < length args" "consume_optional p args j s = Inr (n, s')"
      then show "?J s'" by (rule opt)
    next
      fix j s c s' assume "?J s" "consume_positionals args j s = Inr (c, s')"
      then show "?J s'" by (rule pos)
    next
      fix s xs assume "?J s"
      then show "?J (s\<lparr>ps_extras := xs\<rparr>)" by (rule ex)
    qed (rule r, rule J)
    then show ?thesis by simp
  qed
qed

subsection \<open>Abbreviated options\<close>

text \<open>
  The loop reads the string of a token that names a known option nowhere: replacing it
  by another string with the same classification changes no result. The lemmas go from
  the explicit values of \<open>opt_tuples\<close> through \<open>consume_positionals\<close> (whose
  matches never cover an option) and \<open>consume_optional\<close> to \<open>consume_loop\<close> and
  \<open>parse_args\<close>.
\<close>

lemma same_but_opts_length: "same_but_opts xs ys \<Longrightarrow> length xs = length ys"
  by (auto simp: same_but_opts_def dest: map_eq_imp_length_eq)

lemma same_but_opts_nth:
  "same_but_opts xs ys \<Longrightarrow> j < length xs \<Longrightarrow> snd (xs ! j) = snd (ys ! j) \<and>
     (fst (xs ! j) = fst (ys ! j) \<or> (case snd (xs ! j) of TOpt (Some _) _ _ \<Rightarrow> True | _ \<Rightarrow> False))"
proof -
  assume s: "same_but_opts xs ys" and j: "j < length xs"
  then have m: "map snd xs = map snd ys" and a: "list_all2 (\<lambda>x y. fst x = fst y \<or>
      (case snd x of TOpt (Some _) _ _ \<Rightarrow> True | _ \<Rightarrow> False)) xs ys"
    by (simp_all add: same_but_opts_def)
  have l: "length xs = length ys" using m by (rule map_eq_imp_length_eq)
  have "snd (xs ! j) = snd (ys ! j)" using arg_cong[OF m, of "\<lambda>l. l ! j"] j l by simp
  moreover have "fst (xs ! j) = fst (ys ! j) \<or> (case snd (xs ! j) of TOpt (Some _) _ _ \<Rightarrow> True | _ \<Rightarrow> False)"
    using list_all2_nthD[OF a j] .
  ultimately show ?thesis by blast
qed

lemma same_but_opts_pats: "same_but_opts xs ys \<Longrightarrow> pats xs = pats ys"
proof -
  assume "same_but_opts xs ys"
  then have "map snd xs = map snd ys" by (simp add: same_but_opts_def)
  then have "map pat_of (map snd xs) = map pat_of (map snd ys)" by simp
  then show ?thesis by (simp add: pats_def comp_def)
qed

text \<open>At a position that is not a known option the strings agree.\<close>

lemma same_but_opts_fst:
  "same_but_opts xs ys \<Longrightarrow> j < length xs \<Longrightarrow> \<not> is_opt (snd (xs ! j)) \<Longrightarrow> fst (xs ! j) = fst (ys ! j)"
  using same_but_opts_nth[of xs ys j] by (auto split: tok.splits option.splits)

lemma same_but_opts_slice:
  assumes "same_but_opts xs ys" "\<forall>j. i \<le> j \<and> j < i + n \<and> j < length xs \<longrightarrow> \<not> is_opt (snd (xs ! j))"
  shows "map fst (take n (drop i xs)) = map fst (take n (drop i ys))"
proof (rule nth_equalityI)
  have l: "length xs = length ys" using assms(1) by (rule same_but_opts_length)
  then show "length (map fst (take n (drop i xs))) = length (map fst (take n (drop i ys)))" by simp
  fix k assume "k < length (map fst (take n (drop i xs)))"
  then have k: "k < n" "i + k < length xs" by auto
  have "\<not> is_opt (snd (xs ! (i + k)))" using assms(2) k by auto
  then have "fst (xs ! (i + k)) = fst (ys ! (i + k))" by (rule same_but_opts_fst[OF assms(1) k(2)])
  then show "map fst (take n (drop i xs)) ! k = map fst (take n (drop i ys)) ! k"
    using k l by simp
qed

lemma nth_pats: "j < length xs \<Longrightarrow> pats xs ! j = pat_of (snd (xs ! j))"
  by (simp add: pats_def)

lemma nth_pats_drop: "k + m < length xs \<Longrightarrow> pats (drop k xs) ! m = pat_of (snd (xs ! (k + m)))"
  proof -
  assume a: "k + m < length xs"
  then have "drop k xs ! m = xs ! (k + m)" by (intro nth_drop) simp
  then show ?thesis using a by (simp add: pats_def)
qed

lemma same_but_opts_take:
  assumes s: "same_but_opts xs ys" and n: "PO \<notin> set (take n (pats (drop i xs)))"
  shows "map fst (take n (drop i xs)) = map fst (take n (drop i ys))"
proof (rule same_but_opts_slice[OF s], intro allI impI)
  fix j assume j: "i \<le> j \<and> j < i + n \<and> j < length xs"
  then have "j - i < length (take n (pats (drop i xs)))" by (auto simp: pats_def)
  then have "take n (pats (drop i xs)) ! (j - i) \<in> set (take n (pats (drop i xs)))" by (rule nth_mem)
  moreover have "take n (pats (drop i xs)) ! (j - i) = pat_of (snd (xs ! j))"
  proof -
    have a: "j - i < n" "i + (j - i) < length xs" using j by linarith+
    have "take n (pats (drop i xs)) ! (j - i) = pats (drop i xs) ! (j - i)" by (rule nth_take[OF a(1)])
    also have "\<dots> = pat_of (snd (xs ! (i + (j - i))))" by (rule nth_pats_drop[OF a(2)])
    finally show ?thesis using j by simp
  qed
  ultimately show "\<not> is_opt (snd (xs ! j))" using n by (cases "snd (xs ! j)") auto
qed

lemma grp_noPO: "grp ps = Some n \<Longrightarrow> n \<le> length ps \<and> PO \<notin> set (take n ps)"
proof -
  assume g: "grp ps = Some n"
  define t where "t = length (takeWhile (\<lambda>c. c = PD) ps)"
  from g obtain rest where d: "drop t ps = PA # rest"
    and n: "n = t + 1 + length (takeWhile (\<lambda>c. c = PD) rest)"
    by (auto simp: grp_def t_def Let_def split: list.splits pat.splits)
  have ps: "ps = takeWhile (\<lambda>c. c = PD) ps @ PA # rest"
    using d append_take_drop_id[of t ps] takeWhile_eq_take[of "\<lambda>c. c = PD" ps] by (simp add: t_def)
  have "take n ps = takeWhile (\<lambda>c. c = PD) ps @ PA # takeWhile (\<lambda>c. c = PD) rest"
    using n takeWhile_eq_take[of "\<lambda>c. c = PD" rest] by (subst ps) (simp add: t_def)
  moreover have "n \<le> length ps"
    using n length_takeWhile_le[of "\<lambda>c. c = PD" rest] by (subst ps) (simp add: t_def)
  ultimately show ?thesis by (auto dest: set_takeWhileD)
qed

lemma match_partial_noPO:
  "sum_list (match_partial k ps) \<le> length ps \<and> PO \<notin> set (take (sum_list (match_partial k ps)) ps)"
proof (induction k arbitrary: ps)
  case 0
  then show ?case by simp
next
  case (Suc k)
  show ?case
  proof (cases "grp ps")
    case None
    then show ?thesis by simp
  next
    case (Some n)
    note g = grp_noPO[OF Some]
    note ih = Suc.IH[of "drop n ps"]
    have "take (n + sum_list (match_partial k (drop n ps))) ps =
          take n ps @ take (sum_list (match_partial k (drop n ps))) (drop n ps)"
      by (rule take_add)
    then show ?thesis using Some g ih by auto
  qed
qed

lemma opt_count_noPO: "opt_count a ps = Some n \<Longrightarrow> PO \<notin> set (take n ps)"
  by (auto simp: opt_count_def split: if_splits list.splits pat.splits)

lemma pat_PO_iff: "(pat_of k = PO) = is_opt k"
  by (cases k) simp_all

lemma opt_count_PA: "opt_count a ps = Some n \<Longrightarrow> j < n \<Longrightarrow> j < length ps \<and> ps ! j = PA"
  by (auto simp: opt_count_def split: if_splits list.splits pat.splits)

lemma same_but_opts_drop_pats: "same_but_opts xs ys \<Longrightarrow> pats (drop k xs) = pats (drop k ys)"
  using same_but_opts_pats[of xs ys] by (simp add: pats_def drop_map[symmetric])

lemma opt_tuples_cong:
  "same_but_opts xs ys \<Longrightarrow> opt_tuples p xs i a ostr e = opt_tuples p ys i a ostr e"
proof (induction p xs i a ostr e rule: opt_tuples.induct)
  case (1 p xs i a ostr)
  note dp = same_but_opts_drop_pats[OF "1.prems", of "Suc i"]
  show ?case
  proof (cases "opt_count a (pats (drop (Suc i) xs))")
    case None
    then show ?thesis using dp by simp
  next
    case (Some n)
    have "map fst (take n (drop (Suc i) xs)) = map fst (take n (drop (Suc i) ys))"
      by (rule same_but_opts_take[OF "1.prems" opt_count_noPO[OF Some]])
    then show ?thesis using Some dp by simp
  qed
next
  case (2 p xs i a ostr sep e)
  define e' where "e' = (if tl e = [] then None
                      else if hd (tl e) = CHR ''='' then Some (True, tl (tl e))
                      else Some (False, tl e))"
  show ?case
  proof (cases "aa_kind a = Help \<and> (ostr ! 1 \<noteq> CHR ''-'' \<and> e \<noteq> []) \<and> \<not> (sep \<or> hd e = CHR ''-'')")
    case False
    then show ?thesis by (simp only: opt_tuples.simps(2)) (auto simp del: opt_tuples.simps)
  next
    case c: True
    show ?thesis
    proof (cases "lookup_option p [hd ostr, hd e]")
      case None
      then show ?thesis using c by (simp only: opt_tuples.simps(2)) simp
    next
      case (Some a')
      have "opt_tuples p xs i a' [hd ostr, hd e] e' = opt_tuples p ys i a' [hd ostr, hd e] e'"
        unfolding e'_def using c Some by (intro "2.IH"[OF _ _ _ _ "2.prems"]) simp_all
      then show ?thesis using c Some unfolding opt_tuples.simps(2)[of p xs] opt_tuples.simps(2)[of p ys] e'_def
        by (simp del: opt_tuples.simps)
    qed
  qed
qed

lemma pos_actions_take:
  "sum_list ns \<le> m \<Longrightarrow> pos_actions as ns (take m ts) = pos_actions as ns ts"
proof (induction as ns ts arbitrary: m rule: pos_actions.induct)
  case (1 a as n ns ts)
  then have a: "sum_list ns \<le> m - n" "n \<le> m" by auto
  have "pos_actions as ns (take (m - n) (drop n ts)) = pos_actions as ns (drop n ts)" by (rule "1.IH"[OF a(1)])
  moreover have "drop n (take m ts) = take (m - n) (drop n ts)" by (simp add: drop_take)
  ultimately show ?case using \<open>n \<le> m\<close> by (simp add: min_absorb1)
qed simp_all

lemma same_but_opts_positionals:
  assumes s: "same_but_opts xs ys"
  shows "consume_positionals xs i st = consume_positionals ys i st"
proof -
  define cs where "cs = match_partial (length (ps_pos st)) (pats (drop i xs))"
  have cs': "cs = match_partial (length (ps_pos st)) (pats (drop i ys))"
    using same_but_opts_drop_pats[OF s] by (simp add: cs_def)
  have "PO \<notin> set (take (sum_list cs) (pats (drop i xs)))"
    using match_partial_noPO by (simp add: cs_def)
  then have "map fst (take (sum_list cs) (drop i xs)) = map fst (take (sum_list cs) (drop i ys))"
    by (rule same_but_opts_take[OF s])
  then have "pos_actions (ps_pos st) cs (map fst (drop i xs)) = pos_actions (ps_pos st) cs (map fst (drop i ys))"
    using pos_actions_take[of cs "sum_list cs" "ps_pos st"] by (metis order_refl take_map)
  then show ?thesis unfolding consume_positionals_def Let_def cs_def[symmetric] cs'[symmetric] by simp
qed

lemma same_but_opts_optional:
  assumes s: "same_but_opts xs ys" and j: "j < length xs"
  shows "consume_optional p xs j st = consume_optional p ys j st"
proof -
  note n = same_but_opts_nth[OF s j]
  have y: "snd (ys ! j) = snd (xs ! j)" using n by simp
  show ?thesis
  proof (cases "snd (xs ! j)")
    case (TOpt ao ostr e)
    then show ?thesis
    proof (cases ao)
      case None
      then have "fst (xs ! j) = fst (ys ! j)" using n TOpt by simp
      then show ?thesis using None TOpt y by (simp add: consume_optional_def)
    next
      case (Some a)
      then show ?thesis using TOpt y opt_tuples_cong[OF s] by (simp add: consume_optional_def)
    qed
  qed (use y same_but_opts_fst[OF s j] in \<open>simp_all add: consume_optional_def\<close>)
qed

lemma same_but_opts_drop:
  assumes s: "same_but_opts xs ys" and no: "\<forall>j. k \<le> j \<and> j < length xs \<longrightarrow> \<not> is_opt (snd (xs ! j))"
  shows "map fst (drop k xs) = map fst (drop k ys)"
proof -
  have "map fst (take (length xs) (drop k xs)) = map fst (take (length xs) (drop k ys))"
    using no by (intro same_but_opts_slice[OF s]) auto
  then show ?thesis using same_but_opts_length[OF s] by simp
qed

lemma consume_loop_cong:
  assumes s: "same_but_opts xs ys"
  shows "consume_loop p xs i st = consume_loop p ys i st"
proof (induction "length xs - i" arbitrary: i st rule: less_induct)
  case less
  have l: "length xs = length ys" by (rule same_but_opts_length[OF s])
  have sn: "\<And>j. j < length xs \<Longrightarrow> snd (xs ! j) = snd (ys ! j)" using same_but_opts_nth[OF s] by blast
  have F: "filter (\<lambda>j. is_opt (snd (ys ! j))) [i..<length ys] = filter (\<lambda>j. is_opt (snd (xs ! j))) [i..<length xs]"
    unfolding l[symmetric] by (rule filter_cong) (simp_all add: sn)
  have IH: "consume_loop p xs j s = consume_loop p ys j s" if "i < j" for j s
  proof (cases "length xs \<le> j")
    case True
    then show ?thesis using l by (simp add: consume_loop_end)
  next
    case False
    then have "length xs - j < length xs - i" using that by simp
    then show ?thesis by (rule less)
  qed
  note CP = same_but_opts_positionals[OF s]
  show ?case
  proof (cases "filter (\<lambda>j. is_opt (snd (xs ! j))) [i..<length xs]")
    case Nil
    then have "\<forall>j. i + c \<le> j \<and> j < length xs \<longrightarrow> \<not> is_opt (snd (xs ! j))" for c
      by (auto simp: filter_empty_conv)
    note D = same_but_opts_drop[OF s this]
    show ?thesis using Nil F
      unfolding consume_loop.simps[of p xs i st] consume_loop.simps[of p ys i st]
      by (simp add: CP D split: sum.splits prod.splits)
  next
    case (Cons nxt js)
    then have nxt: "i \<le> nxt" "nxt < length xs"
      by (auto dest: filter_upt_Cons)
    have "\<forall>j. i \<le> j \<and> j < i + (nxt - i) \<and> j < length xs \<longrightarrow> \<not> is_opt (snd (xs ! j))"
      using filter_upt_first[OF Cons] by auto
    note T = same_but_opts_slice[OF s this]
    note CO = same_but_opts_optional[OF s nxt(2)]
    have CO': "consume_optional p xs i s = consume_optional p ys i s" if "i = nxt" for s
      using CO that by simp
    show ?thesis using Cons F nxt
      unfolding consume_loop.simps[of p xs i st] consume_loop.simps[of p ys i st]
      by (simp add: CP CO CO' T IH split: sum.splits prod.splits if_split)
  qed
qed

lemma classify_length: "classify p argv = Inr ks \<Longrightarrow> length ks = length argv"
  by (induction p argv arbitrary: ks rule: classify.induct)
     (auto split: if_splits sum.splits)

lemma classify_at:
  "''--'' \<notin> set pre \<Longrightarrow> u \<noteq> ''--'' \<Longrightarrow> classify p (pre @ u # post) = Inr ks \<Longrightarrow>
   \<exists>ks1 k ks2. ks = ks1 @ k # ks2 \<and> length ks1 = length pre \<and> parse_optional p u = Inr k"
proof (induction pre arbitrary: ks)
  case Nil
  then show ?case by (auto split: sum.splits)
next
  case (Cons x pre)
  then obtain k0 ks' where "ks = k0 # ks'" "classify p (pre @ u # post) = Inr ks'"
    by (auto split: sum.splits)
  with Cons show ?case by (metis append_Cons length_Cons list.set_intros(2))
qed

lemma classify_alias:
  "u \<noteq> ''--'' \<Longrightarrow> v \<noteq> ''--'' \<Longrightarrow> parse_optional p u = parse_optional p v \<Longrightarrow>
   classify p (pre @ u # post) = classify p (pre @ v # post)"
proof (induction pre)
  case (Cons x pre)
  then have IH: "classify p (pre @ u # post) = classify p (pre @ v # post)" by simp
  show ?case by (simp only: append_Cons classify.simps(2)) (subst IH, simp add: map_replicate_const)
qed simp

lemma parse_args_alias:
  assumes "''--'' \<notin> set pre" "u \<noteq> ''--''" "v \<noteq> ''--''"
    and u: "parse_optional p u = Inr (TOpt (Some a) s e)" and v: "parse_optional p v = parse_optional p u"
  shows "parse_args p (pre @ u # post) = parse_args p (pre @ v # post)"
proof (cases "classify p (pre @ u # post)")
  case (Inl err)
  then show ?thesis using classify_alias[OF assms(2,3) v[symmetric]] by (simp add: parse_args_def)
next
  case (Inr ks)
  then obtain ks1 k ks2 where ks: "ks = ks1 @ k # ks2" "length ks1 = length pre" "parse_optional p u = Inr k"
    using classify_at[OF assms(1,2)] by blast
  have k: "k = TOpt (Some a) s e" using ks(3) u by simp
  have l2: "length ks2 = length post" using classify_length[OF Inr] ks(1,2) by simp
  have z: "zip (pre @ w # post) ks = zip pre ks1 @ (w, k) # zip post ks2" for w
    using ks(1,2) l2 by simp
  have "same_but_opts (zip (pre @ u # post) ks) (zip (pre @ v # post) ks)"
    unfolding same_but_opts_def z using k
    by (auto intro!: list_all2_appendI list_all2_refl)
  then have "consume_loop p (zip (pre @ u # post) ks) 0 (init_state p) =
             consume_loop p (zip (pre @ v # post) ks) 0 (init_state p)"
    by (rule consume_loop_cong)
  then show ?thesis using Inr classify_alias[OF assms(2,3) v[symmetric]] by (simp add: parse_args_def)
qed

subsection \<open>Positionals when there is no separator\<close>

text \<open>
  Without a \<open>--\<close> token every positional group of \<open>consume_positionals\<close> is a single
  plain argument; an option's actions start with the option itself.
\<close>

lemma pat_PD_iff: "(pat_of k = PD) = (k = TDash)" "(PD = pat_of k) = (k = TDash)"
  by (cases k; simp)+

lemma opt_tuples_hd:
  "opt_tuples p args i a ostr e = Inr (n, ts, xs) \<Longrightarrow> \<exists>vs ts'. ts = (a, vs) # ts'"
proof (cases e)
  case None
  then show "opt_tuples p args i a ostr e = Inr (n, ts, xs) \<Longrightarrow> ?thesis"
    by (auto split: option.splits)
next
  case (Some se)
  obtain sep v where se: "se = (sep, v)" by (cases se) auto
  show "opt_tuples p args i a ostr e = Inr (n, ts, xs) \<Longrightarrow> ?thesis"
    unfolding Some se opt_tuples.simps(2)
    by (auto simp del: opt_tuples.simps split: if_splits option.splits sum.splits prod.splits)
qed

lemma parse_optional_not_dash: "parse_optional p t = Inr k \<Longrightarrow> k \<noteq> TDash"
  by (auto simp: parse_optional_def split: if_splits option.splits list.splits)

lemma classify_no_dash: "classify p argv = Inr ks \<Longrightarrow> ''--'' \<notin> set argv \<Longrightarrow> TDash \<notin> set ks"
  by (induction p argv arbitrary: ks rule: classify.induct)
     (auto split: sum.splits dest: parse_optional_not_dash)

lemma takeWhile_noPD: "PD \<notin> set ps \<Longrightarrow> takeWhile (\<lambda>c. c = PD) ps = []"
  by (cases ps) auto

lemma grp_noPD: "PD \<notin> set ps \<Longrightarrow> grp ps = Some n \<Longrightarrow> n = 1 \<and> ps \<noteq> [] \<and> hd ps = PA"
  by (cases ps) (auto simp: grp_def takeWhile_noPD split: pat.splits list.splits)

lemma pos_actions_noPD:
  "PD \<notin> set (pats xs) \<Longrightarrow> (a, vs) \<in> set (pos_actions as (match_partial k (pats xs)) (map fst xs)) \<Longrightarrow>
   a \<in> set as \<and> (\<exists>x\<in>set xs. vs = [fst x])"
proof (induction k arbitrary: as xs)
  case 0
  then show ?case by simp
next
  case (Suc k)
  show ?case
  proof (cases "grp (pats xs)")
    case None
    then show ?thesis using Suc.prems by simp
  next
    case (Some n)
    note g = grp_noPD[OF Suc.prems(1) Some]
    then obtain x xs' where xs: "xs = x # xs'" by (cases xs) (auto simp: pats_def)
    show ?thesis
    proof (cases as)
      case Nil
      then show ?thesis using Suc.prems by simp
    next
      case (Cons b bs)
      have d: "drop 1 (pats xs) = pats xs'" by (simp add: xs pats_def)
      have "PD \<notin> set (pats xs')" using Suc.prems(1) by (simp add: xs pats_def)
      moreover have "(a, vs) = (b, [fst x]) \<or> (a, vs) \<in> set (pos_actions bs (match_partial k (pats xs')) (map fst xs'))"
        using Suc.prems(2) Some g d by (simp add: Cons xs)
      ultimately show ?thesis using Suc.IH[of xs' bs] Cons xs by auto
    qed
  qed
qed

end
