(* ===== verification/Cli.thy ===== *)
theory Cli
  imports Driver Argparse
begin

text \<open>
  The command line of \<open>fbx_to_glb.py\<close>: \<open>main\<close> (lines 115--120) takes the arguments
  after Blender's separator \<open>--\<close>, \<open>_parse_args\<close> (lines 18--23) parses them with the
  parser of \<open>Argparse\<close>, and \<open>_blender_main\<close> (lines 26--36) resets the scene, parses,
  and resolves the three paths before the run of \<open>Driver\<close> continues. The help text
  \<open>argparse\<close> prints and the usage message of an error are not modelled; the run ends
  with the corresponding \<open>run_error\<close>.
\<close>

text \<open>The actions \<open>_parse_args\<close> adds (lines 20--22), after the help action.\<close>

definition model_arg :: arg_action where
  "model_arg =
     \<lparr>aa_strings = [''--model''], aa_dest = ''model'', aa_kind = Store, aa_required = True,
      aa_default = VNone\<rparr>"

definition anim_arg :: arg_action where
  "anim_arg =
     \<lparr>aa_strings = [''--anim''], aa_dest = ''anim'', aa_kind = Append, aa_required = False,
      aa_default = VList []\<rparr>"

definition out_arg :: arg_action where
  "out_arg =
     \<lparr>aa_strings = [''--out''], aa_dest = ''out'', aa_kind = Store, aa_required = True,
      aa_default = VNone\<rparr>"

definition fbx_parser :: "arg_action list" where
  "fbx_parser = [help_action, model_arg, anim_arg, out_arg]"

text \<open>
  Lines 34--36 read \<open>args.model\<close>, \<open>args.anim\<close> and \<open>args.out\<close> as strings:
  \<open>os.path.abspath\<close> raises \<open>TypeError\<close> on anything else.
\<close>

fun strs_of :: "arg_val list \<Rightarrow> string list option" where
  "strs_of [] = Some []"
| "strs_of (VStr s # vs) = map_option (Cons s) (strs_of vs)"
| "strs_of (_ # vs) = None"

definition cli_of_ns :: "namespace \<Rightarrow> cli_args option" where
  "cli_of_ns ns =
     (case (ns ''model'', ns ''anim'', ns ''out'') of
        (Some (VStr m), Some (VList vs), Some (VStr ot)) \<Rightarrow>
          map_option (\<lambda>xs. \<lparr>arg_model = m, arg_anim = xs, arg_out = ot\<rparr>) (strs_of vs)
      | _ \<Rightarrow> None)"

text \<open>
  \<open>_blender_main(argv)\<close>: the reset of line 30, the parse of line 32, then the run on
  the parsed arguments (\<open>blender_main\<close> resets again, which changes nothing).
\<close>

definition blender_main_argv :: "host \<Rightarrow> string list \<Rightarrow> world \<Rightarrow> run_error option \<times> world" where
  "blender_main_argv h argv w0 =
     (let w = w0\<lparr>w_scene := empty_scene\<rparr> in
      case parse_args fbx_parser argv of
        Inl StopHelp \<Rightarrow> (Some ArgsHelp, w)
      | Inl (StopError e) \<Rightarrow> (Some (ArgsInvalid e), w)
      | Inr ns \<Rightarrow>
          (case cli_of_ns ns of
             None \<Rightarrow> (Some ArgTypeError, w)
           | Some args \<Rightarrow> blender_main h args w0))"

text \<open>\<open>main()\<close>: \<open>sys.argv\<close> is Blender's whole command line.\<close>

definition fbx_main :: "host \<Rightarrow> string list \<Rightarrow> world \<Rightarrow> run_error option \<times> world" where
  "fbx_main h argv w =
     (if ''--'' \<notin> set argv then (Some NoSeparator, w)
      else blender_main_argv h (drop (Suc (length (takeWhile (\<lambda>x. x \<noteq> ''--'') argv))) argv) w)"

subsection \<open>Rendering arguments\<close>

text \<open>The command line that passes given arguments with attached values.\<close>

definition render_eq :: "cli_args \<Rightarrow> string list" where
  "render_eq args =
     (''--model='' @ arg_model args) # map (\<lambda>a. ''--anim='' @ a) (arg_anim args) @
     [''--out='' @ arg_out args]"

text \<open>
  The types the script relies on, as an invariant of the parser's state: \<open>model\<close> and
  \<open>out\<close> hold \<open>None\<close> or a string, and a string once their option was seen; \<open>anim\<close>
  holds a list of strings.
\<close>

definition str_val :: "arg_val option \<Rightarrow> bool" where
  "str_val v = (case v of Some (VStr _) \<Rightarrow> True | _ \<Rightarrow> False)"

definition fbx_typed :: "pstate \<Rightarrow> bool" where
  "fbx_typed st =
     ((str_val (ps_ns st ''model'') \<or> ps_ns st ''model'' = Some VNone \<and> model_arg \<notin> set (ps_seen st)) \<and>
      (str_val (ps_ns st ''out'') \<or> ps_ns st ''out'' = Some VNone \<and> out_arg \<notin> set (ps_seen st)) \<and>
      (case ps_ns st ''anim'' of Some (VList vs) \<Rightarrow> strs_of vs \<noteq> None | _ \<Rightarrow> False))"

subsection \<open>Facts about the parser of the script\<close>

lemma fbx_parser_no_eq: "list_all (\<lambda>x. CHR ''='' \<notin> set (snd x)) (option_pairs fbx_parser)"
  by (simp add: fbx_parser_def option_pairs_def help_action_def model_arg_def anim_arg_def out_arg_def)

lemma lookup_fbx:
  "lookup_option fbx_parser ''--model'' = Some model_arg"
  "lookup_option fbx_parser ''--anim'' = Some anim_arg"
  "lookup_option fbx_parser ''--out'' = Some out_arg"
  by (simp_all add: lookup_option_def fbx_parser_def option_pairs_def help_action_def
      model_arg_def anim_arg_def out_arg_def)

lemma parse_optional_fbx:
  "parse_optional fbx_parser (''--model='' @ m) = Inr (TOpt (Some model_arg) ''--model'' (Some (True, m)))"
  "parse_optional fbx_parser (''--anim='' @ a) = Inr (TOpt (Some anim_arg) ''--anim'' (Some (True, a)))"
  "parse_optional fbx_parser (''--out='' @ ot) = Inr (TOpt (Some out_arg) ''--out'' (Some (True, ot)))"
  using parse_optional_explicit[OF lookup_fbx(1) _ _ _ fbx_parser_no_eq, of m]
    parse_optional_explicit[OF lookup_fbx(2) _ _ _ fbx_parser_no_eq, of a]
    parse_optional_explicit[OF lookup_fbx(3) _ _ _ fbx_parser_no_eq, of ot]
  by simp_all

lemmas parse_optional_fbx_simp = parse_optional_fbx[simplified]

abbreviation anim_tok :: "string \<Rightarrow> tok" where
  "anim_tok a \<equiv> TOpt (Some anim_arg) ''--anim'' (Some (True, a))"

lemma classify_anims:
  "classify fbx_parser (map (\<lambda>a. ''--anim='' @ a) as @ [''--out='' @ ot]) =
   Inr (map anim_tok as @ [TOpt (Some out_arg) ''--out'' (Some (True, ot))])"
  by (induction as) (simp_all add: parse_optional_fbx_simp)

lemma classify_render_eq:
  "classify fbx_parser (render_eq args) =
   Inr (TOpt (Some model_arg) ''--model'' (Some (True, arg_model args)) #
        map anim_tok (arg_anim args) @ [TOpt (Some out_arg) ''--out'' (Some (True, arg_out args))])"
  using classify_anims[of "arg_anim args" "arg_out args"]
  by (simp add: render_eq_def parse_optional_fbx_simp)

lemma apply_explicit_anims:
  "ps_ns st ''anim'' = Some (VList vs) \<Longrightarrow>
   apply_explicit (map (\<lambda>a. (''--anim='' @ a, anim_tok a)) as) st =
   st\<lparr>ps_seen := ps_seen st @ replicate (length as) anim_arg,
      ps_ns := (ps_ns st)(''anim'' \<mapsto> VList (vs @ map VStr as))\<rparr>"
proof (induction as arbitrary: st vs)
  case Nil
  then show ?case by (simp add: map_upd_triv)
next
  case (Cons a as)
  let ?f = "\<lambda>a. (''--anim='' @ a, anim_tok a)"
  let ?st1 = "st\<lparr>ps_seen := ps_seen st @ [anim_arg], ps_ns := (ps_ns st)(''anim'' \<mapsto> VList (vs @ [VStr a]))\<rparr>"
  have t: "take_action anim_arg [a] st = Inr ?st1"
    using Cons.prems by (simp add: take_action_option anim_arg_def)
  have "apply_explicit (map ?f (a # as)) st = apply_explicit (map ?f as) ?st1"
    by (simp only: list.map apply_explicit.simps snd_conv t sum.case tok.case option.case prod.case)
  also have "\<dots> = ?st1\<lparr>ps_seen := ps_seen ?st1 @ replicate (length as) anim_arg,
      ps_ns := (ps_ns ?st1)(''anim'' \<mapsto> VList ((vs @ [VStr a]) @ map VStr as))\<rparr>"
    by (rule Cons.IH) simp
  also have "\<dots> = st\<lparr>ps_seen := ps_seen st @ replicate (length (a # as)) anim_arg,
      ps_ns := (ps_ns st)(''anim'' \<mapsto> VList (vs @ map VStr (a # as)))\<rparr>"
    by (simp add: replicate_app_Cons_same)
  finally show ?case .
qed

lemma strs_of_map [simp]: "strs_of (map VStr xs) = Some xs"
  by (induction xs) simp_all

lemma zip_render:
  "zip (x # map f as @ [y]) (kx # map g as @ [ky]) = (x, kx) # map (\<lambda>a. (f a, g a)) as @ [(y, ky)]"
  by (induction as) simp_all

text \<open>The arguments rendered with attached values parse back to themselves.\<close>

lemma parse_render_eq:
  "\<exists>ns. parse_args fbx_parser (render_eq args) = Inr ns \<and> cli_of_ns ns = Some args"
proof -
  let ?m = "(''--model='' @ arg_model args, TOpt (Some model_arg) ''--model'' (Some (True, arg_model args)))"
  let ?o = "(''--out='' @ arg_out args, TOpt (Some out_arg) ''--out'' (Some (True, arg_out args)))"
  let ?xs = "?m # map (\<lambda>a. (''--anim='' @ a, anim_tok a)) (arg_anim args) @ [?o]"
  have z: "zip (render_eq args) (TOpt (Some model_arg) ''--model'' (Some (True, arg_model args)) #
        map anim_tok (arg_anim args) @ [TOpt (Some out_arg) ''--out'' (Some (True, arg_out args))]) = ?xs"
    unfolding render_eq_def by (rule zip_render)
  have all: "list_all explicit_opt ?xs"
    by (simp add: explicit_opt_def list_all_iff model_arg_def anim_arg_def out_arg_def)
  let ?st0 = "init_state fbx_parser"
  let ?st1 = "?st0\<lparr>ps_seen := [model_arg], ps_ns := (ps_ns ?st0)(''model'' \<mapsto> VStr (arg_model args))\<rparr>"
  have d: "defaults fbx_parser ''anim'' = Some (VList [])"
    by (simp add: defaults_def fbx_parser_def help_action_def model_arg_def anim_arg_def out_arg_def)
  have t1: "take_action model_arg [arg_model args] ?st0 = Inr ?st1"
    by (simp add: take_action_option model_arg_def init_state_def)
  have a1: "ps_ns ?st1 ''anim'' = Some (VList [])" by (simp add: init_state_def d)
  let ?st2 = "?st1\<lparr>ps_seen := [model_arg] @ replicate (length (arg_anim args)) anim_arg,
      ps_ns := (ps_ns ?st1)(''anim'' \<mapsto> VList (map VStr (arg_anim args)))\<rparr>"
  have t2: "apply_explicit (map (\<lambda>a. (''--anim='' @ a, anim_tok a)) (arg_anim args)) ?st1 = ?st2"
    using apply_explicit_anims[OF a1] by simp
  let ?st3 = "?st2\<lparr>ps_seen := ps_seen ?st2 @ [out_arg], ps_ns := (ps_ns ?st2)(''out'' \<mapsto> VStr (arg_out args))\<rparr>"
  have t3: "take_action out_arg [arg_out args] ?st2 = Inr ?st3"
    by (simp add: take_action_option out_arg_def)
  have run: "apply_explicit ?xs ?st0 = ?st3"
    using t1 t2 t3 by (simp add: apply_explicit_append)
  have fin: "finish fbx_parser ?st3 = Inr (ps_ns ?st3)"
    by (simp add: finish_def fbx_parser_def help_action_def model_arg_def anim_arg_def out_arg_def
        init_state_def)
  have "parse_args fbx_parser (render_eq args) = Inr (ps_ns ?st3)"
    using consume_loop_explicit[of 0 ?xs fbx_parser ?st0] all run fin
    by (simp add: parse_args_def classify_render_eq z)
  moreover have "cli_of_ns (ps_ns ?st3) = Some args"
    by (simp add: cli_of_ns_def init_state_def d)
  ultimately show ?thesis by blast
qed

lemma strs_of_append: "strs_of vs \<noteq> None \<Longrightarrow> strs_of (vs @ [VStr s]) \<noteq> None"
  by (induction vs rule: strs_of.induct) auto

lemma fbx_args_distinct:
  "model_arg \<noteq> out_arg" "model_arg \<noteq> anim_arg" "anim_arg \<noteq> out_arg"
  "help_action \<noteq> model_arg" "help_action \<noteq> anim_arg" "help_action \<noteq> out_arg"
  by (simp_all add: model_arg_def anim_arg_def out_arg_def help_action_def)

lemma fbx_typed_step:
  assumes "fbx_typed st" "a \<in> set fbx_parser" "aa_kind a \<noteq> Help \<Longrightarrow> length vs = 1"
    and "take_action a vs st = Inr st'"
  shows "fbx_typed st'"
proof -
  have "a = help_action \<or> a = model_arg \<or> a = anim_arg \<or> a = out_arg"
    using assms(2) by (simp add: fbx_parser_def)
  then show ?thesis
  proof (elim disjE)
    assume "a = help_action"
    then show ?thesis using assms(4) by (simp add: take_action_def help_action_def)
  next
    assume a: "a = model_arg"
    then obtain v where "vs = [v]" using assms(3) by (cases vs) (auto simp: model_arg_def)
    then show ?thesis using assms(1,4) a
      by (auto simp: take_action_def get_values_def model_arg_def out_arg_def fbx_typed_def str_val_def)
  next
    assume a: "a = out_arg"
    then obtain v where "vs = [v]" using assms(3) by (cases vs) (auto simp: out_arg_def)
    then show ?thesis using assms(1,4) a
      by (auto simp: take_action_def get_values_def model_arg_def out_arg_def fbx_typed_def str_val_def)
  next
    assume a: "a = anim_arg"
    then obtain v where v: "vs = [v]" using assms(3) by (cases vs) (auto simp: anim_arg_def)
    obtain xs where xs: "ps_ns st ''anim'' = Some (VList xs)" "strs_of xs \<noteq> None"
      using assms(1) by (auto simp: fbx_typed_def split: option.splits arg_val.splits)
    have "st' = st\<lparr>ps_seen := ps_seen st @ [anim_arg],
        ps_ns := (ps_ns st)(''anim'' \<mapsto> VList (xs @ [VStr v]))\<rparr>"
      using assms(4) a v xs(1) by (simp add: take_action_option anim_arg_def)
    then show ?thesis using assms(1) xs strs_of_append[OF xs(2)] fbx_args_distinct
      by (simp add: fbx_typed_def)
  qed
qed

lemma fbx_typed_ext: "fbx_typed st \<Longrightarrow> fbx_typed (st\<lparr>ps_extras := xs\<rparr>)"
  by (simp add: fbx_typed_def)

lemma fbx_init: "fbx_typed (init_state fbx_parser) \<and> ps_pos (init_state fbx_parser) = []"
  by (simp add: fbx_typed_def init_state_def defaults_def positionals_def fbx_parser_def
      help_action_def model_arg_def anim_arg_def out_arg_def str_val_def)

text \<open>A successful parse gives the types lines 34--36 need.\<close>

lemma parse_fbx_typed: "parse_args fbx_parser argv = Inr ns \<Longrightarrow> cli_of_ns ns \<noteq> None"
proof -
  assume ok: "parse_args fbx_parser argv = Inr ns"
  then obtain ks st where ks: "classify fbx_parser argv = Inr ks"
    and loop: "consume_loop fbx_parser (zip argv ks) 0 (init_state fbx_parser) = Inr st"
    and fin: "finish fbx_parser st = Inr ns"
    by (auto simp: parse_args_def split: sum.splits)
  have toks: "list_all (tok_in fbx_parser) (map snd (zip argv ks))"
    using classify_in[OF ks] by (auto simp: list_all_iff dest: set_zip_rightD)
  have "fbx_typed st \<and> ps_pos st = []"
  proof (rule consume_loop_inv[where I = fbx_typed and p = fbx_parser and args = "zip argv ks"])
    fix s a vs s'
    assume "fbx_typed s" "a \<in> set fbx_parser" "aa_kind a \<noteq> Help \<Longrightarrow> length vs = 1"
      "take_action a vs s = Inr s'"
    then show "fbx_typed s'" by (rule fbx_typed_step)
  next
    fix s xs assume "fbx_typed s"
    then show "fbx_typed (s\<lparr>ps_extras := xs\<rparr>)" by (rule fbx_typed_ext)
  qed (use toks loop fbx_init in auto)
  moreover have "model_arg \<in> set (ps_seen st)" "out_arg \<in> set (ps_seen st)" "ns = ps_ns st"
    using fin by (auto simp: finish_def fbx_parser_def model_arg_def out_arg_def split: if_splits)
  ultimately show ?thesis
    by (auto simp: fbx_typed_def str_val_def cli_of_ns_def split: option.splits arg_val.splits)
qed

lemma blender_main_not_cli: "fst (blender_main h args w) \<noteq> Some ArgTypeError"
  by (auto simp: blender_main_def Let_def finalize_binding_def
      split: option.splits list.splits sum.splits prod.splits
      dest: merge_anims_Inl write_output_Inl)

lemma takeWhile_sep: "''--'' \<notin> set pre \<Longrightarrow> takeWhile (\<lambda>x. x \<noteq> ''--'') (pre @ ''--'' # r) = pre"
  by (induction pre) auto

lemma blender_main_argv_render: "blender_main_argv h (render_eq args) w = blender_main h args w"
proof -
  obtain ns where "parse_args fbx_parser (render_eq args) = Inr ns" "cli_of_ns ns = Some args"
    using parse_render_eq by blast
  then show ?thesis by (simp add: blender_main_argv_def)
qed

lemma fbx_strings:
  "option_pairs fbx_parser =
     [(help_action, ''-h''), (help_action, ''--help''), (model_arg, ''--model''),
      (anim_arg, ''--anim''), (out_arg, ''--out'')]"
  by (simp add: fbx_parser_def option_pairs_def help_action_def model_arg_def anim_arg_def out_arg_def)

lemma startswith_take: "startswith s u \<Longrightarrow> u \<in> set (map (\<lambda>k. take k s) [length u..<Suc (length s)])"
proof -
  assume "startswith s u"
  then have t: "take (length u) s = u" by (simp add: startswith_def)
  have "length (take (length u) s) \<le> length s" by simp
  then have "length u \<le> length s" by (simp only: t)
  then have "length u \<in> set [length u..<Suc (length s)]" by auto
  then have "take (length u) s \<in> set (map (\<lambda>k. take k s) [length u..<Suc (length s)])"
    unfolding set_map by (rule imageI)
  then show ?thesis by (simp only: t)
qed

text \<open>The prefixes of the long options, evaluated.\<close>

lemma fbx_abbrevs_eval:
  "list_all (\<lambda>(ot, u). parse_optional fbx_parser u = parse_optional fbx_parser ot)
     (concat (map (\<lambda>ot. map (\<lambda>k. (ot, take k ot)) [3..<Suc (length ot)])
        [''--model'', ''--anim'', ''--out'', ''--help'']))"
  by code_simp

lemma parse_optional_fbx_prefix:
  assumes "ot \<in> set [''--model'', ''--anim'', ''--out'', ''--help'']" "startswith ot u" "3 \<le> length u"
  shows "parse_optional fbx_parser u = parse_optional fbx_parser ot"
proof -
  have "u \<in> set (map (\<lambda>k. take k ot) [3..<Suc (length ot)])"
    using startswith_take[OF assms(2)] assms(3) by auto
  then obtain k where k: "k \<in> set [3..<Suc (length ot)]" "u = take k ot" by auto
  then have "(ot, u) \<in> (\<lambda>k. (ot, take k ot)) ` set [3..<Suc (length ot)]"
    by (intro image_eqI[where x = k]) simp_all
  then have "(ot, u) \<in> set ((\<lambda>ot. map (\<lambda>k. (ot, take k ot)) [3..<Suc (length ot)]) ot)"
    by (simp only: set_map)
  then have "(ot, u) \<in> set (concat (map (\<lambda>ot. map (\<lambda>k. (ot, take k ot)) [3..<Suc (length ot)])
      [''--model'', ''--anim'', ''--out'', ''--help'']))"
    by (rule in_concat_map[OF _ assms(1)])
  with fbx_abbrevs_eval have "(\<lambda>(ot, u). parse_optional fbx_parser u = parse_optional fbx_parser ot) (ot, u)"
    unfolding list_all_iff by (rule bspec)
  then show ?thesis by simp
qed

lemma parse_optional_fbx_long:
  "ot \<in> set [''--model'', ''--anim'', ''--out'', ''--help''] \<Longrightarrow>
   \<exists>x. parse_optional fbx_parser ot = Inr (TOpt (Some x) ot None)"
  by (simp only: list.set insert_iff empty_iff)
     (elim disjE; simp add: parse_optional_def lookup_option_def fbx_strings)

text \<open>An abbreviation of a long option parses as the option itself.\<close>

lemma parse_args_fbx_abbrev:
  assumes a: "''--'' \<notin> set pre" "ot \<in> set [''--model'', ''--anim'', ''--out'', ''--help'']"
    "startswith ot u" "3 \<le> length u"
  shows "parse_args fbx_parser (pre @ u # post) = parse_args fbx_parser (pre @ ot # post)"
proof -
  have po: "parse_optional fbx_parser u = parse_optional fbx_parser ot"
    by (rule parse_optional_fbx_prefix[OF a(2-4)])
  obtain x where ox: "parse_optional fbx_parser ot = Inr (TOpt (Some x) ot None)"
    using parse_optional_fbx_long[OF a(2)] ..
  have u: "u \<noteq> ''--''" using a(4) by auto
  have ot: "ot \<noteq> ''--''" using a(2) by auto
  have "parse_args fbx_parser (pre @ ot # post) = parse_args fbx_parser (pre @ u # post)"
    by (rule parse_args_alias[OF a(1) ot u ox po])
  then show ?thesis by (rule sym)
qed

lemma drop_sep: "''--'' \<notin> set pre \<Longrightarrow>
  drop (Suc (length (takeWhile (\<lambda>x. x \<noteq> ''--'') (pre @ ''--'' # r)))) (pre @ ''--'' # r) = r"
  by (simp add: takeWhile_sep)


subsection \<open>Properties of the command line\<close>

text \<open>
  C15: the parser of \<open>_parse_args\<close> reads back any arguments passed as
  \<open>--model=M --anim=A1 ... --anim=An --out=O\<close>, whatever the strings (a value may itself
  start with a dash or contain \<open>=\<close>): the three values, the animation files in order.
\<close>

theorem parse_render_roundtrip:
  "(case parse_args fbx_parser (render_eq args) of Inr ns \<Rightarrow> cli_of_ns ns | Inl _ \<Rightarrow> None) = Some args"
proof -
  obtain ns where "parse_args fbx_parser (render_eq args) = Inr ns" "cli_of_ns ns = Some args"
    using parse_render_eq by blast
  then show ?thesis by simp
qed

text \<open>
  C16: Blender's command line \<open>pre -- --model=M --anim=... --out=O\<close>, where \<open>pre\<close> holds no
  separator, runs \<open>_blender_main\<close> on exactly those arguments: the script as launched
  behaves as the run of \<open>Driver\<close> on the parsed arguments.
\<close>

theorem fbx_main_render:
  "''--'' \<notin> set pre \<Longrightarrow> fbx_main h (pre @ ''--'' # render_eq args) w = blender_main h args w"
  by (simp add: fbx_main_def takeWhile_sep blender_main_argv_render)

text \<open>
  C17: however Blender is launched, the script never fails with the \<open>TypeError\<close> of
  \<open>os.path.abspath\<close> (lines 34--36): a successful parse always gives strings for
  \<open>--model\<close> and \<open>--out\<close> and a list of strings for \<open>--anim\<close>.
\<close>

theorem fbx_main_no_type_error: "fst (fbx_main h argv w) \<noteq> Some ArgTypeError"
proof (cases "''--'' \<in> set argv")
  case False
  then show ?thesis by (simp add: fbx_main_def)
next
  case True
  let ?argv = "drop (Suc (length (takeWhile (\<lambda>x. x \<noteq> ''--'') argv))) argv"
  have "fst (blender_main_argv h ?argv w) \<noteq> Some ArgTypeError"
  proof (cases "parse_args fbx_parser ?argv")
    case (Inl s)
    then show ?thesis by (cases s) (simp_all add: blender_main_argv_def)
  next
    case (Inr ns)
    then obtain args where "cli_of_ns ns = Some args" using parse_fbx_typed by blast
    then show ?thesis using Inr blender_main_not_cli by (simp add: blender_main_argv_def)
  qed
  then show ?thesis using True by (simp add: fbx_main_def)
qed

text \<open>
  C24: \<open>argparse\<close> accepts any unambiguous prefix of a long option (its
  \<open>allow_abbrev\<close>, on by default): after Blender's separator, \<open>--mo\<close> in place of
  \<open>--model\<close>, or any prefix of \<open>--anim\<close>, \<open>--out\<close> or \<open>--help\<close> of at least
  three characters, gives the same run of the script.
\<close>

theorem fbx_main_abbrev:
  "''--'' \<notin> set pre \<Longrightarrow> ''--'' \<notin> set mid \<Longrightarrow>
   ot \<in> set [''--model'', ''--anim'', ''--out'', ''--help''] \<Longrightarrow> startswith ot u \<Longrightarrow> 3 \<le> length u \<Longrightarrow>
   fbx_main h (pre @ ''--'' # mid @ u # post) w = fbx_main h (pre @ ''--'' # mid @ ot # post) w"
  by (simp add: fbx_main_def drop_sep blender_main_argv_def parse_args_fbx_abbrev)

end
