(* ===== verification/StartColors.thy ===== *)
theory StartColors
  imports Argparse Files
begin

text \<open>
  \<open>src/scripts/start_colors.py\<close>: \<open>process_obj_file\<close> (lines 4--19) counts the lines of
  an OBJ file that start with \<open>f \<close> and writes one line \<open>255 255 255 255\<close> per face to
  the output file; its \<open>__main__\<close> block (lines 22--31) parses two positional
  arguments. Files are opened as Python opens them: relative names against the working
  directory, a missing parent or entry is \<open>FileNotFoundError\<close>, a non-directory on the
  way \<open>NotADirectoryError\<close>, a directory \<open>IsADirectoryError\<close>; the input is read in
  text mode with universal newlines. What the script prints is the list of lines of its
  standard output.
\<close>

subsection \<open>Opening files\<close>

datatype errno = ENOENT | ENOTDIR | EISDIR

text \<open>The error of resolving a directory: the first missing or non-directory ancestor.\<close>

function dir_error :: "fs \<Rightarrow> path \<Rightarrow> errno option" where
  "dir_error fs d =
     (if basename d = [] then None
      else case dir_error fs (dirname d) of
        Some e \<Rightarrow> Some e
      | None \<Rightarrow> (case fs d of None \<Rightarrow> Some ENOENT | Some Dir \<Rightarrow> None | Some _ \<Rightarrow> Some ENOTDIR))"
  by pat_completeness auto
termination
  by (relation "measure (\<lambda>(fs, d). length d)") (auto simp: length_dirname_less)

declare dir_error.simps [simp del]

text \<open>\<open>open(p, "r")\<close>: the entry opened.\<close>

definition open_read :: "fs \<Rightarrow> path \<Rightarrow> errno + node" where
  "open_read fs p =
     (case dir_error fs (dirname p) of
        Some e \<Rightarrow> Inl e
      | None \<Rightarrow> (case fs p of None \<Rightarrow> Inl ENOENT | Some Dir \<Rightarrow> Inl EISDIR | Some n \<Rightarrow> Inr n))"

text \<open>\<open>open(p, "w")\<close>: the file is created or truncated.\<close>

definition open_write :: "fs \<Rightarrow> path \<Rightarrow> errno + fs" where
  "open_write fs p =
     (case dir_error fs (dirname p) of
        Some e \<Rightarrow> Inl e
      | None \<Rightarrow> (if fs p = Some Dir then Inl EISDIR else Inr (fs(p \<mapsto> Text []))))"

subsection \<open>Reading lines\<close>

text \<open>Universal newlines: \<open>\r\n\<close> and \<open>\r\<close> are read as \<open>\n\<close>.\<close>

fun translate_nl :: "string \<Rightarrow> string" where
  "translate_nl [] = []"
| "translate_nl [c] = (if c = CHR 0x0D then [CHR 0x0A] else [c])"
| "translate_nl (c # d # s) =
     (if c = CHR 0x0D then (if d = CHR 0x0A then CHR 0x0A # translate_nl s else CHR 0x0A # translate_nl (d # s))
      else c # translate_nl (d # s))"

text \<open>Iterating a text file: the lines, each with its newline, the last one possibly without.\<close>

fun lines_from :: "string \<Rightarrow> string \<Rightarrow> string list" where
  "lines_from cur [] = (if cur = [] then [] else [cur])"
| "lines_from cur (c # s) =
     (if c = CHR 0x0A then (cur @ [c]) # lines_from [] s else lines_from (cur @ [c]) s)"

definition py_lines :: "string \<Rightarrow> string list" where
  "py_lines s = lines_from [] (translate_nl s)"

text \<open>Line 8: \<open>sum(1 for line in infile if line.startswith("f "))\<close>.\<close>

definition face_count :: "string \<Rightarrow> nat" where
  "face_count s = length (filter (\<lambda>l. startswith l ''f '') (py_lines s))"

text \<open>Line 12, once per face.\<close>

definition face_line :: string where
  "face_line = ''255 255 255 255'' @ [CHR 0x0A]"

text \<open>
  The specification of the count: the positions of the text where a line starts (the
  first position and every position after a newline) and the characters \<open>f \<close> begin.
\<close>

definition line_starts :: "string \<Rightarrow> nat list" where
  "line_starts t = filter (\<lambda>i. i = 0 \<or> t ! (i - 1) = CHR 0x0A) [0..<length t]"

text \<open>The same positions found by one scan, \<open>b\<close> telling whether a line starts here.\<close>

fun count_f :: "bool \<Rightarrow> string \<Rightarrow> nat" where
  "count_f b [] = 0"
| "count_f b (c # s) = (if b \<and> take 2 (c # s) = ''f '' then 1 else 0) + count_f (c = CHR 0x0A) s"

subsection \<open>What is printed\<close>

text \<open>\<open>str(n)\<close> for a natural number.\<close>

fun nat_str :: "nat \<Rightarrow> string" where
  "nat_str n =
     (if n < 10 then [char_of (48 + n)] else nat_str (n div 10) @ [char_of (48 + n mod 10)])"

declare nat_str.simps [simp del]

text \<open>
  \<open>repr\<close> of a string of ASCII characters: single quotes unless the string contains a
  single quote and no double quote; backslashes, the quote used, tab, newline and
  carriage return escaped, other control characters as \<open>\xNN\<close>.
\<close>

definition hex_digit :: "nat \<Rightarrow> char" where
  "hex_digit n = ''0123456789abcdef'' ! n"

definition repr_char :: "char \<Rightarrow> char \<Rightarrow> string" where
  "repr_char q c =
     (if c = q \<or> c = CHR 0x5C then [CHR 0x5C, c]
      else if c = CHR 0x09 then [CHR 0x5C, CHR ''t'']
      else if c = CHR 0x0A then [CHR 0x5C, CHR ''n'']
      else if c = CHR 0x0D then [CHR 0x5C, CHR ''r'']
      else if of_char c < (32::nat) \<or> of_char c = (127::nat)
      then [CHR 0x5C, CHR ''x'', hex_digit (of_char c div 16), hex_digit (of_char c mod 16)]
      else [c])"

definition py_repr :: "string \<Rightarrow> string" where
  "py_repr s =
     (let q = (if CHR 0x27 \<in> set s \<and> CHR 0x22 \<notin> set s then CHR 0x22 else CHR 0x27) in
      q # concat (map (repr_char q) s) @ [q])"

fun errno_code :: "errno \<Rightarrow> nat" where
  "errno_code ENOENT = 2"
| "errno_code ENOTDIR = 20"
| "errno_code EISDIR = 21"

fun strerror :: "errno \<Rightarrow> string" where
  "strerror ENOENT = ''No such file or directory''"
| "strerror ENOTDIR = ''Not a directory''"
| "strerror EISDIR = ''Is a directory''"

text \<open>The exceptions \<open>process_obj_file\<close> reports, and the lines it prints.\<close>

datatype sc_exc = OSErr errno path | DecodeErr | ArgTypeErr string

datatype sc_msg = Processed nat path | NotExist path | ErrorOccurred sc_exc

fun exc_str :: "sc_exc \<Rightarrow> string option" where
  "exc_str (OSErr e p) = Some (''[Errno '' @ nat_str (errno_code e) @ ''] '' @ strerror e @ '': '' @ py_repr p)"
| "exc_str (ArgTypeErr t) = Some (''expected str, bytes or os.PathLike object, not '' @ t)"
| "exc_str DecodeErr = None"

text \<open>The printed line (the text of a decoding error is not modelled).\<close>

fun msg_text :: "sc_msg \<Rightarrow> string option" where
  "msg_text (Processed n out) = Some (''Processed '' @ nat_str n @ '' faces. Output written to '' @ out @ ''.'')"
| "msg_text (NotExist inp) = Some (''The file '' @ inp @ '' does not exist.'')"
| "msg_text (ErrorOccurred e) = map_option (\<lambda>s. ''An error occurred: '' @ s) (exc_str e)"

subsection \<open>process_obj_file\<close>

text \<open>
  Lines 4--19. Both files are opened before the input is read (line 6), so the output
  is created, or truncated, first; a \<open>FileNotFoundError\<close> from either \<open>open\<close> is
  reported as a missing input (line 17), any other exception by its text (line 19).
\<close>

definition report :: "path \<Rightarrow> sc_exc \<Rightarrow> sc_msg" where
  "report inp e = (case e of OSErr ENOENT _ \<Rightarrow> NotExist inp | _ \<Rightarrow> ErrorOccurred e)"

definition process_obj_file :: "path \<Rightarrow> path \<Rightarrow> path \<Rightarrow> fs \<Rightarrow> fs \<times> sc_msg" where
  "process_obj_file cwd inp out fs =
     (let ip = abspath cwd inp; op = abspath cwd out in
      case open_read fs ip of
        Inl e \<Rightarrow> (fs, report inp (OSErr e inp))
      | Inr _ \<Rightarrow>
        (case open_write fs op of
           Inl e \<Rightarrow> (fs, report inp (OSErr e out))
         | Inr fs1 \<Rightarrow>
           (case fs1 ip of
              Some (Text s) \<Rightarrow>
                (fs1(op \<mapsto> Text (concat (replicate (face_count s) face_line))),
                 Processed (face_count s) out)
            | _ \<Rightarrow> (fs1, ErrorOccurred DecodeErr))))"

subsection \<open>The script\<close>

text \<open>Lines 23--27: the parser, with the two positionals after the help action.\<close>

definition input_arg :: arg_action where
  "input_arg = \<lparr>aa_strings = [], aa_dest = ''input_file'', aa_kind = Store, aa_required = True, aa_default = VNone\<rparr>"

definition output_arg :: arg_action where
  "output_arg = \<lparr>aa_strings = [], aa_dest = ''output_file'', aa_kind = Store, aa_required = True, aa_default = VNone\<rparr>"

definition sc_parser :: "arg_action list" where
  "sc_parser = [help_action, input_arg, output_arg]"

text \<open>How the script's process ends: normally, after help, or after a usage error.\<close>

datatype sc_exit = ScDone | ScHelp | ScUsage arg_error

text \<open>The name of the type of a parsed value, as \<open>TypeError\<close> messages give it.\<close>

definition py_type_name :: "arg_val \<Rightarrow> string" where
  "py_type_name v = (case v of VNone \<Rightarrow> ''NoneType'' | VStr _ \<Rightarrow> ''str'' | VList _ \<Rightarrow> ''list'')"

text \<open>
  Line 31 with the parsed values: \<open>open\<close> raises \<open>TypeError\<close> on a value that is
  not a string, the input's \<open>open\<close> first (line 6), so a missing input is still
  reported as missing when only the output is not a string.
\<close>

definition process_obj_vals :: "path \<Rightarrow> arg_val \<Rightarrow> arg_val \<Rightarrow> fs \<Rightarrow> fs \<times> sc_msg" where
  "process_obj_vals cwd iv ov fs =
     (case iv of
        VStr inp \<Rightarrow>
          (case ov of
             VStr out \<Rightarrow> process_obj_file cwd inp out fs
           | _ \<Rightarrow>
             (case open_read fs (abspath cwd inp) of
                Inl e \<Rightarrow> (fs, report inp (OSErr e inp))
              | Inr _ \<Rightarrow> (fs, ErrorOccurred (ArgTypeErr (py_type_name ov)))))
      | _ \<Rightarrow> (fs, ErrorOccurred (ArgTypeErr (py_type_name iv))))"

text \<open>Lines 29--31 on \<open>sys.argv[1:]\<close>: parse, then process the two values.\<close>

definition sc_main :: "path \<Rightarrow> string list \<Rightarrow> fs \<Rightarrow> sc_exit \<times> fs \<times> sc_msg list" where
  "sc_main cwd argv fs =
     (case parse_args sc_parser argv of
        Inl StopHelp \<Rightarrow> (ScHelp, fs, [])
      | Inl (StopError e) \<Rightarrow> (ScUsage e, fs, [])
      | Inr ns \<Rightarrow>
          (case (ns ''input_file'', ns ''output_file'') of
             (Some iv, Some ov) \<Rightarrow> (let (fs', m) = process_obj_vals cwd iv ov fs in (ScDone, fs', [m]))
           | _ \<Rightarrow> (ScDone, fs, [])))"

text \<open>
  The invariant of parsing with \<open>sc_parser\<close>: the positionals left are the script's two,
  and every action taken so far is one of them and has stored a string.
\<close>

definition sc_typed :: "pstate \<Rightarrow> bool" where
  "sc_typed st \<longleftrightarrow> set (ps_pos st) \<subseteq> {input_arg, output_arg} \<and>
     (\<forall>a\<in>set (ps_seen st). (a = input_arg \<or> a = output_arg) \<and> (\<exists>v. ps_ns st (aa_dest a) = Some (VStr v)))"

subsection \<open>Lines and faces\<close>

lemma lines_from_count:
  "length (filter (\<lambda>l. startswith l ''f '') (lines_from cur t)) =
   (if cur = [] then count_f True t else (if startswith (cur @ t) ''f '' then 1 else 0) + count_f False t)"
proof (induction cur t rule: lines_from.induct)
  case (1 cur)
  then show ?case by simp
next
  case (2 cur c s)
  show ?case
  proof (cases "c = CHR 0x0A")
    case True
    have "startswith (cur @ [c]) ''f '' = startswith (cur @ c # s) ''f ''" if "cur \<noteq> []"
      using that by (cases cur) (auto simp: startswith_def take_Cons' split: list.splits)
    then show ?thesis using 2 True by (auto simp: startswith_def)
  next
    case False
    then show ?thesis using 2 by (auto simp: startswith_def)
  qed
qed

lemma count_f_positions:
  "count_f b t = length (filter (\<lambda>i. (if i = 0 then b else t ! (i - 1) = CHR 0x0A) \<and> take 2 (drop i t) = ''f '')
     [0..<length t])"
proof (induction t arbitrary: b)
  case Nil
  then show ?case by simp
next
  case (Cons c s)
  let ?P = "\<lambda>i. (if i = 0 then b else (c # s) ! (i - 1) = CHR 0x0A) \<and> take 2 (drop i (c # s)) = ''f ''"
  let ?Q = "\<lambda>i. (if i = 0 then c = CHR 0x0A else s ! (i - 1) = CHR 0x0A) \<and> take 2 (drop i s) = ''f ''"
  have u: "[0..<length (c # s)] = 0 # map Suc [0..<length s]"
    by (simp only: length_Cons upt_conv_Cons[OF zero_less_Suc] map_Suc_upt)
  have pq: "?P \<circ> Suc = ?Q"
  proof (rule ext)
    fix i show "(?P \<circ> Suc) i = ?Q i" by (cases i) simp_all
  qed
  have p0: "?P 0 = (b \<and> take 2 (c # s) = ''f '')" by (simp only: refl if_True drop_0)
  have "filter ?P [0..<length (c # s)] = (if ?P 0 then [0] else []) @ map Suc (filter ?Q [0..<length s])"
    unfolding u by (simp only: filter.simps(2) filter_map pq) simp
  then have "length (filter ?P [0..<length (c # s)]) = (if ?P 0 then 1 else 0) + length (filter ?Q [0..<length s])"
    by (simp only: length_if_single length_map)
  also have "\<dots> = count_f b (c # s)"
    by (simp only: p0 count_f.simps Cons[of "c = CHR 0x0A", symmetric])
  finally show ?case by (rule sym)
qed

lemma line_starts_filter:
  "filter P (line_starts t) =
   filter (\<lambda>i. (if i = 0 then True else t ! (i - 1) = CHR 0x0A) \<and> P i) [0..<length t]"
  unfolding line_starts_def filter_filter by (rule filter_cong) auto

subsection \<open>Opening the two files\<close>

lemma open_read_Text:
  "dir_error fs (dirname p) = None \<Longrightarrow> fs p = Some (Text s) \<Longrightarrow> open_read fs p = Inr (Text s)"
  by (simp add: open_read_def)

lemma open_write_ok:
  "dir_error fs (dirname p) = None \<Longrightarrow> fs p \<noteq> Some Dir \<Longrightarrow> open_write fs p = Inr (fs(p \<mapsto> Text []))"
  by (simp add: open_write_def)

lemma face_count_empty [simp]: "face_count [] = 0"
  by (simp add: face_count_def py_lines_def)

lemma sc_parse_plain:
  assumes "i \<noteq> []" "hd i \<noteq> CHR ''-''" "ot \<noteq> []" "hd ot \<noteq> CHR ''-''"
  shows "\<exists>ns. parse_args sc_parser [i, ot] = Inr ns \<and> ns ''input_file'' = Some (VStr i) \<and>
           ns ''output_file'' = Some (VStr ot)"
proof -
  have c: "classify sc_parser [i, ot] = Inr [TArg, TArg]"
    using assms by (cases i; cases ot) (auto simp: parse_optional_def)
  have i2: "i \<noteq> ''--''" "ot \<noteq> ''--''" using assms by auto
  let ?st = "\<lparr>ps_ns = (defaults sc_parser)(''input_file'' \<mapsto> VStr i, ''output_file'' \<mapsto> VStr ot),
              ps_extras = [], ps_pos = [], ps_seen = [input_arg, output_arg]\<rparr>"
  have p: "positionals sc_parser = [input_arg, output_arg]"
    by (simp add: positionals_def sc_parser_def help_action_def input_arg_def output_arg_def)
  have run: "consume_loop sc_parser [(i, TArg), (ot, TArg)] 0 (init_state sc_parser) = Inr ?st"
    using i2 by (simp add: consume_loop.simps consume_positionals_def pats_def grp_def init_state_def p
        take_action_def get_values_def input_arg_def output_arg_def)
  have fin: "finish sc_parser ?st = Inr (ps_ns ?st)"
    by (simp add: finish_def sc_parser_def help_action_def)
  have "parse_args sc_parser [i, ot] = Inr (ps_ns ?st)"
    unfolding parse_args_def c using run fin by simp
  then show ?thesis by simp
qed

subsection \<open>Properties of the script\<close>

text \<open>
  C18: the number of faces the script counts is the number of lines of the text (as
  read with universal newlines) that begin with \<open>f \<close>: the positions that start a
  line and where \<open>f \<close> begins.
\<close>

theorem face_count_spec:
  "face_count s =
   length (filter (\<lambda>i. take 2 (drop i (translate_nl s)) = ''f '') (line_starts (translate_nl s)))"
proof -
  have "face_count s = count_f True (translate_nl s)"
    by (simp add: face_count_def py_lines_def lines_from_count)
  also have "\<dots> = length (filter (\<lambda>i. (if i = 0 then True else translate_nl s ! (i - 1) = CHR 0x0A) \<and>
      take 2 (drop i (translate_nl s)) = ''f '') [0..<length (translate_nl s)])"
    by (rule count_f_positions)
  finally show ?thesis by (simp only: line_starts_filter)
qed

text \<open>
  C19: when the input is a text file, the output's directory exists, the output is not a
  directory and is another file, the script writes one line \<open>255 255 255 255\<close> per face
  to the output, changes nothing else, and reports the count.
\<close>

theorem process_obj_file_ok:
  assumes "dir_error fs (dirname (abspath cwd inp)) = None" "fs (abspath cwd inp) = Some (Text s)"
    and "dir_error fs (dirname (abspath cwd out)) = None" "fs (abspath cwd out) \<noteq> Some Dir"
    and "abspath cwd inp \<noteq> abspath cwd out"
  shows "process_obj_file cwd inp out fs =
           (fs(abspath cwd out \<mapsto> Text (concat (replicate (face_count s) face_line))),
            Processed (face_count s) out)"
  using assms by (simp add: process_obj_file_def open_read_Text open_write_ok)

text \<open>
  C20: when the input and the output name the same file, \<open>open(output, "w")\<close> (line 6)
  truncates the input before it is read: the OBJ file is left empty and the script
  reports zero faces.
\<close>

theorem same_file_truncated:
  assumes "abspath cwd inp = abspath cwd out" "dir_error fs (dirname (abspath cwd inp)) = None"
    and "fs (abspath cwd inp) = Some (Text s)"
  shows "process_obj_file cwd inp out fs = (fs(abspath cwd inp \<mapsto> Text []), Processed 0 out)"
  using assms by (simp add: process_obj_file_def open_read_Text open_write_ok)

text \<open>
  C21: when the output's directory does not exist, \<open>open(output, "w")\<close> raises
  \<open>FileNotFoundError\<close> and line 17 reports that the input does not exist, although it
  does; nothing is written.
\<close>

theorem missing_output_dir_misreported:
  assumes "dir_error fs (dirname (abspath cwd inp)) = None" "fs (abspath cwd inp) = Some (Text s)"
    and "dir_error fs (dirname (abspath cwd out)) = Some ENOENT"
  shows "process_obj_file cwd inp out fs = (fs, NotExist inp)"
  using assms by (simp add: process_obj_file_def open_read_Text open_write_def report_def)

text \<open>C22: the script changes no file other than its output.\<close>

theorem process_obj_file_only_output:
  "p \<noteq> abspath cwd out \<Longrightarrow> fst (process_obj_file cwd inp out fs) p = fs p"
  by (auto simp: process_obj_file_def open_write_def Let_def
      split: sum.splits option.splits node.splits if_splits)

text \<open>
  C23: run with two plain arguments (neither starts with \<open>-\<close>), the script processes the
  first as the input and the second as the output.
\<close>

theorem sc_main_two_args:
  assumes "i \<noteq> []" "hd i \<noteq> CHR ''-''" "ot \<noteq> []" "hd ot \<noteq> CHR ''-''"
  shows "sc_main cwd [i, ot] fs =
           (ScDone, fst (process_obj_file cwd i ot fs), [snd (process_obj_file cwd i ot fs)])"
proof -
  obtain ns where "parse_args sc_parser [i, ot] = Inr ns" "ns ''input_file'' = Some (VStr i)"
      "ns ''output_file'' = Some (VStr ot)"
    using sc_parse_plain[OF assms] by blast
  then show ?thesis by (simp add: sc_main_def process_obj_vals_def split: prod.splits)
qed

subsection \<open>Types of the parsed arguments\<close>

lemma sc_options: "a \<in> set sc_parser \<Longrightarrow> aa_strings a \<noteq> [] \<Longrightarrow> a = help_action"
  by (auto simp: sc_parser_def input_arg_def output_arg_def)

lemma sc_typed_ext: "sc_typed st \<Longrightarrow> sc_typed (st\<lparr>ps_extras := xs\<rparr>)"
  by (simp add: sc_typed_def)

lemma sc_typed_take_action:
  assumes "sc_typed st" "a = input_arg \<or> a = output_arg" "v \<noteq> ''--''" "take_action a [v] st = Inr st'"
  shows "sc_typed st'"
proof -
  have "st' = st\<lparr>ps_seen := ps_seen st @ [a], ps_ns := (ps_ns st)(aa_dest a \<mapsto> VStr v)\<rparr>"
    using assms(2-4) by (auto simp: take_action_def get_values_def input_arg_def output_arg_def)
  then show ?thesis using assms(1,2) by (auto simp: sc_typed_def input_arg_def output_arg_def)
qed

lemma sc_consume_optional:
  assumes "list_all (tok_in sc_parser) (map snd args)" "j < length args"
    "consume_optional sc_parser args j s = Inr (n, s')"
  shows "\<exists>xs. s' = s\<lparr>ps_extras := xs\<rparr>"
proof (cases "snd (args ! j)")
  case (TOpt ao ostr e)
  show ?thesis
  proof (cases ao)
    case (Some a)
    have "tok_in sc_parser (snd (args ! j))" using assms(1,2) by (simp add: list_all_iff)
    then have a: "a = help_action" using TOpt Some sc_options by (simp add: tok_in_def)
    from assms(3) TOpt Some obtain m ts xs where ot: "opt_tuples sc_parser args j a ostr e = Inr (m, ts, xs)"
        and ta: "take_actions ts (s\<lparr>ps_extras := ps_extras s @ xs\<rparr>) = Inr s'"
      by (auto simp: consume_optional_def split: sum.splits prod.splits)
    obtain vs ts' where "ts = (a, vs) # ts'" using opt_tuples_hd[OF ot] by blast
    then have False using ta a by (simp add: take_action_def help_action_def)
    then show ?thesis ..
  qed (use assms(3) TOpt in \<open>auto simp: consume_optional_def\<close>)
qed (use assms(3) in \<open>auto simp: consume_optional_def\<close>)

lemma sc_consume_positionals:
  assumes "\<forall>x\<in>set args. snd x \<noteq> TDash \<and> fst x \<noteq> ''--''" "sc_typed s"
    "consume_positionals args j s = Inr (c, s')"
  shows "sc_typed s'"
proof -
  let ?ts = "pos_actions (ps_pos s) (match_partial (length (ps_pos s)) (pats (drop j args))) (map fst (drop j args))"
  obtain s1 where ta: "take_actions ?ts s = Inr s1"
      and s': "s' = s1\<lparr>ps_pos := drop (length (match_partial (length (ps_pos s)) (pats (drop j args)))) (ps_pos s)\<rparr>"
    using assms(3) by (auto simp: consume_positionals_def Let_def split: sum.splits)
  have "\<forall>x\<in>set (drop j args). snd x \<noteq> TDash" using assms(1) set_drop_subset[of j args] by blast
  then have nd: "PD \<notin> set (pats (drop j args))" by (force simp: pats_def pat_PD_iff)
  have "sc_typed s1 \<and> ps_pos s1 = ps_pos s"
  proof (rule take_actions_inv[where I = sc_typed, OF ta assms(2)])
    fix t a vs t' assume t: "sc_typed t" and m: "(a, vs) \<in> set ?ts" and r: "take_action a vs t = Inr t'"
    from pos_actions_noPD[OF nd m] obtain x where
      x: "a \<in> set (ps_pos s)" "x \<in> set (drop j args)" "vs = [fst x]" by blast
    have a: "a = input_arg \<or> a = output_arg" using x(1) assms(2) by (auto simp: sc_typed_def)
    have v: "fst x \<noteq> ''--''" using x(2) assms(1) set_drop_subset[of j args] by auto
    show "sc_typed t'" using sc_typed_take_action[OF t a v] r x(3) by simp
  qed
  then show ?thesis using s' assms(2) by (auto simp: sc_typed_def dest: in_set_dropD)
qed

lemma sc_init: "sc_typed (init_state sc_parser)"
  by (simp add: sc_typed_def init_state_def positionals_def sc_parser_def help_action_def
      input_arg_def output_arg_def)

lemma sc_finish:
  assumes "finish sc_parser st = Inr ns" "sc_typed st"
  shows "\<exists>i ot. ns ''input_file'' = Some (VStr i) \<and> ns ''output_file'' = Some (VStr ot)"
proof -
  have "input_arg \<in> set (ps_seen st)" "output_arg \<in> set (ps_seen st)" and ns: "ns = ps_ns st"
    using assms(1) by (auto simp: finish_def Let_def sc_parser_def help_action_def input_arg_def
        output_arg_def split: if_splits)
  then show ?thesis using assms(2) unfolding sc_typed_def by (force simp: input_arg_def output_arg_def)
qed

lemma process_obj_file_no_type_error: "snd (process_obj_file cwd i ot fs) \<noteq> ErrorOccurred (ArgTypeErr t)"
  by (auto simp: process_obj_file_def report_def Let_def split: sum.splits option.splits node.splits errno.splits)

text \<open>
  C27: \<open>start_colors.py -- x --\<close> passes a list to \<open>open\<close>: after the separator the
  second \<open>--\<close> is a plain argument, \<open>_get_values\<close> removes it from the output's
  single string, and the empty list it leaves becomes the value (Python 3.11). The
  script opens the input and then reports the \<open>TypeError\<close> of the output's
  \<open>open\<close>, or a missing input, and writes nothing.
\<close>

theorem sc_main_dash_output:
  "sc_main cwd [''--'', i, ''--''] fs =
     (ScDone, fs, [case open_read fs (abspath cwd i) of
                     Inl e \<Rightarrow> report i (OSErr e i)
                   | Inr _ \<Rightarrow> ErrorOccurred (ArgTypeErr ''list'')])"
proof -
  let ?args = "[(''--'', TDash), (i, TArg), (''--'', TArg)]"
  have c: "classify sc_parser [''--'', i, ''--''] = Inr [TDash, TArg, TArg]" by simp
  have p: "positionals sc_parser = [input_arg, output_arg]"
    by (simp add: positionals_def sc_parser_def help_action_def input_arg_def output_arg_def)
  let ?st = "\<lparr>ps_ns = (defaults sc_parser)(''input_file'' \<mapsto> VStr i, ''output_file'' \<mapsto> VList []),
              ps_extras = [], ps_pos = [], ps_seen = [input_arg, output_arg]\<rparr>"
  have run: "consume_loop sc_parser ?args 0 (init_state sc_parser) = Inr ?st"
    by (simp add: consume_loop.simps consume_positionals_def pats_def grp_def init_state_def p
        take_action_def get_values_def input_arg_def output_arg_def)
  have fin: "finish sc_parser ?st = Inr (ps_ns ?st)"
    by (simp add: finish_def sc_parser_def help_action_def)
  have "parse_args sc_parser [''--'', i, ''--''] = Inr (ps_ns ?st)"
    unfolding parse_args_def c using run fin by simp
  then show ?thesis
    by (simp add: sc_main_def process_obj_vals_def py_type_name_def split: sum.splits)
qed

text \<open>
  C28: without a \<open>--\<close> on the command line both positionals are strings, so the script
  never reports a \<open>TypeError\<close> from \<open>open\<close>.
\<close>

theorem sc_main_no_type_error:
  "''--'' \<notin> set argv \<Longrightarrow> ErrorOccurred (ArgTypeErr t) \<notin> set (snd (snd (sc_main cwd argv fs)))"
proof (cases "parse_args sc_parser argv")
  case (Inl s)
  then show ?thesis by (cases s) (simp_all add: sc_main_def)
next
  case (Inr ns)
  assume nd: "''--'' \<notin> set argv"
  from Inr obtain ks st where c: "classify sc_parser argv = Inr ks"
      and run: "consume_loop sc_parser (zip argv ks) 0 (init_state sc_parser) = Inr st"
      and fin: "finish sc_parser st = Inr ns"
    by (auto simp: parse_args_def split: sum.splits)
  have l: "length ks = length argv" by (rule classify_length[OF c])
  have toks: "list_all (tok_in sc_parser) (map snd (zip argv ks))"
    using classify_in[OF c] l by simp
  have args: "\<forall>x\<in>set (zip argv ks). snd x \<noteq> TDash \<and> fst x \<noteq> ''--''"
    using classify_no_dash[OF c nd] nd by (auto dest: set_zip_leftD set_zip_rightD)
  have "sc_typed st"
  proof (rule consume_loop_inv_gen[where I = sc_typed and p = sc_parser and args = "zip argv ks" and i = 0
        and st = "init_state sc_parser" and st' = st])
    fix j s n s' assume "sc_typed s" "j < length (zip argv ks)" "consume_optional sc_parser (zip argv ks) j s = Inr (n, s')"
    then show "sc_typed s'" using sc_consume_optional[OF toks] sc_typed_ext by blast
  next
    fix j s c s' assume "sc_typed s" "consume_positionals (zip argv ks) j s = Inr (c, s')"
    then show "sc_typed s'" by (rule sc_consume_positionals[OF args])
  next
    fix s xs assume "sc_typed s"
    then show "sc_typed (s\<lparr>ps_extras := xs\<rparr>)" by (rule sc_typed_ext)
  qed (rule run, rule sc_init)
  then obtain i ot where "ns ''input_file'' = Some (VStr i)" "ns ''output_file'' = Some (VStr ot)"
    using sc_finish[OF fin] by blast
  then show ?thesis using Inr process_obj_file_no_type_error[of cwd i ot fs t]
    by (simp add: sc_main_def process_obj_vals_def case_prod_beta)
qed

end
