(* ===== verification/Spec2Isabelle.thy ===== *)
theory Spec2Isabelle
  imports FakeHost Cli StartColors
begin

text \<open>
  \<^bold>\<open>A verification library for \<open>src/scripts/fbx_to_glb.py\<close> and \<open>src/scripts/start_colors.py\<close>.\<close>

  \<^bold>\<open>The programs.\<close> \<open>fbx_to_glb.py\<close> runs inside Blender. \<open>main\<close> takes the
  arguments after Blender's separator \<open>--\<close>; \<open>_blender_main\<close> resets the scene,
  parses \<open>--model\<close>, \<open>--anim\<close> and \<open>--out\<close> with \<open>argparse\<close>, resolves the paths,
  checks that the inputs exist, imports the rigged model, takes the first \<open>ARMATURE\<close>
  object as the merge target, and then, for each animation file in the order given,
  imports it, renames the actions (clips) it created after the file's stem, and deletes
  the objects it created. Finally it gives the armature animation data and a bound
  action, creates the output directory and exports one GLB. The parts interact through
  one shared, mutable scene (\<open>bpy.data.objects\<close>, \<open>bpy.data.actions\<close>) that the host's
  import operator changes. \<open>start_colors.py\<close> is a separate command-line tool: it counts
  the faces (\<open>f \<close> lines) of an OBJ file and writes one colour line per face.

  \<^bold>\<open>The library, leaf first.\<close>
  \<^item> \<open>Prelude\<close>: the type names, the \<open>arg_error\<close> and \<open>run_error\<close> datatypes (the
    \<open>SystemExit\<close>s of lines 39, 42, 50, 118, argparse's exits, and the exceptions of host
    and OS calls), the \<open>scene_ops\<close> and \<open>ids_simps\<close> collections, and generic lemmas on
    lists keyed by an identity.
  \<^item> \<open>PyLib\<close>: the Python library calls on strings and paths as CPython computes them:
    \<open>py_lower\<close> (\<open>str.lower\<close> on ASCII), \<open>startswith\<close>, \<open>rfind\<close>, \<open>basename\<close>,
    \<open>splitext\<close> (with its dot-skipping loop \<open>has_non_dot\<close>, a \<^theory_text>\<open>function\<close> with a
    measure), \<open>dirname\<close>, \<open>split_head\<close>/\<open>split_tail\<close> (\<open>posixpath.split\<close>),
    \<open>path_join\<close>, \<open>normpath\<close>, \<open>abspath\<close>.
  \<^item> \<open>Argparse\<close>: the algorithm of Python 3.11.10's \<open>ArgumentParser.parse_args\<close> for
    store, append and help actions and one-value positionals: token classification
    (\<open>parse_optional\<close>, abbreviations, \<open>--opt=value\<close>, negative numbers, the separator),
    the consuming loop (\<open>consume_loop\<close>, a \<^theory_text>\<open>function\<close> terminating on the
    number of tokens left), the required and left-over checks. Its lemmas carry any
    invariant that the loop's three kinds of step keep through the loop
    (\<open>consume_loop_inv_gen\<close>, and \<open>consume_loop_inv\<close> for parsers without
    positionals), compute runs of \<open>--opt=value\<close> tokens (\<open>consume_loop_explicit\<close>),
    show that the loop reads the string of a known option nowhere (\<open>same_but_opts\<close> and
    \<open>parse_args_alias\<close>), and that without a separator every positional takes one
    plain argument (\<open>pos_actions_noPD\<close>). The model was compared
    with the interpreter on 300 random command lines of both parsers.
  \<^item> \<open>Scene\<close>: the Scene State as records (\<open>bobject\<close>, \<open>baction\<close>, \<open>anim_data\<close>,
    \<open>scene\<close>) with identities, the snapshots \<open>object_ids\<close>/\<open>action_ids\<close> (lines 58--59,
    63, 74), the operators \<open>select_all_deselect\<close>, \<open>select_set\<close>, \<open>object_delete\<close>
    (lines 77--80), the factory reset \<open>empty_scene\<close> (line 30), and the importer's
    contract \<open>import_extends\<close>.
  \<^item> \<open>Disambiguate\<close> (Clip Disambiguator, lines 63--71): \<open>new_actions\<close>, \<open>file_stem\<close>,
    \<open>rename_action\<close>, the loop \<open>rename_new_actions\<close> and its set reference \<open>rename_all\<close>.
  \<^item> \<open>Cleanup\<close> (Cleanup Stage, lines 73--80): \<open>new_objects\<close>, \<open>select_each\<close>,
    \<open>cleanup_new_objects\<close>.
  \<^item> \<open>Binding\<close> (target choice and Binding Finalizer, lines 47--51, 85--91):
    \<open>armatures\<close>, \<open>anim_data_create\<close>, \<open>first_action\<close>, \<open>bind_if_unset\<close>,
    \<open>finalize_binding\<close>.
  \<^item> \<open>Files\<close> (lines 93--110): the file system as a map from absolute paths to entries
    (directories, binary files, text files, GLB files), \<open>mkdir_ok\<close>, CPython's recursive
    \<open>makedirs\<close> (a \<^theory_text>\<open>function\<close> terminating on the path's length), \<open>out_dir\<close>, the
    fixed \<open>gltf_settings\<close> and \<open>write_output\<close>; normalised absolute paths
    (\<open>abs_path\<close> of components \<open>plain_comp\<close>, with their \<open>ancestors\<close>) as the
    specification of what \<open>abspath\<close> returns.
  \<^item> \<open>Driver\<close> (Pipeline Driver, lines 26--112): the host interface \<open>host\<close> (import
    operator, exporter, working directory) and its contract \<open>host_ok\<close>, the world
    (scene, file system, printed lines), one loop iteration \<open>merge_one\<close>, the loop
    \<open>merge_anims\<close>, the input check \<open>first_missing\<close> and the run \<open>blender_main\<close> on
    parsed arguments.
  \<^item> \<open>Cli\<close> (lines 18--36, 115--120): the parser of \<open>_parse_args\<close>, the conversion of the
    namespace to the arguments the run reads (\<open>cli_of_ns\<close>), \<open>blender_main_argv\<close>
    (reset, parse, run) and \<open>fbx_main\<close> (the separator).
  \<^item> \<open>StartColors\<close> (all of \<open>start_colors.py\<close>): opening files with Python's errors
    (\<open>dir_error\<close>, \<open>open_read\<close>, \<open>open_write\<close>), universal-newline line iteration,
    \<open>face_count\<close>, \<open>process_obj_file\<close>, its call with parsed values of any type
    (\<open>process_obj_vals\<close>: \<open>open\<close> raises \<open>TypeError\<close> on a non-string), the printed
    messages and the script \<open>sc_main\<close>; \<open>sc_typed\<close> is the invariant of its parse.
  \<^item> \<open>FakeHost\<close>: a scripted host whose importer appends fresh objects and actions, selects
    the new objects and binds the first new action, as Blender's FBX importer does; it is
    proved to keep the contract (\<open>fake_host_ok\<close>), so the host-generic theorems apply to
    it and the scenarios below run on it.

  \<^bold>\<open>How the model corresponds to the code.\<close> Python's object identity is the \<open>ident\<close>
  of a record; \<open>set(bpy.data.objects)\<close> is \<open>object_ids\<close>. Blender keeps its data in
  ordered collections; the model keeps them as lists in the order the host gives, and
  the host may insert new items anywhere. Python iterates \<open>after_actions - before_actions\<close>
  in an arbitrary order; the model iterates in collection order and proves the order
  irrelevant. Exceptions and \<open>SystemExit\<close> are values of \<open>run_error\<close>; a run returns the
  error with the world reached. No loop needs fuel: the loops over the argument lists are
  structural recursions, and \<open>makedirs\<close>, \<open>has_non_dot\<close>, \<open>dir_error\<close>, \<open>opt_tuples\<close>
  and \<open>consume_loop\<close> terminate by measures (path length, explicit-value length, tokens
  left).

  \<^bold>\<open>What is proved.\<close> Merging (C1--C3, C6): per source the cleanup is exact, clip
  accounting is exact, new clips are renamed by the rule of line 70, and over the whole
  loop the objects are the base import's and the earlier clips are kept. Renaming (C4,
  C5, C10, C11): the loop renames exactly the listed clips whose names lack the stem as
  a case-insensitive prefix and is idempotent, its result does not depend on the order
  of the set, and the stem is the one CPython computes. The run (C7--C9, C12--C14):
  fail-fast input checks, the successful run's output and binding, the finalizer,
  \<open>makedirs\<close>, that the target armature is never removed, the missing-armature exit.
  The command line (C15--C17): rendering and parsing arguments is a round trip, the
  launched script is the run on the parsed arguments, and the \<open>TypeError\<close> branch is
  unreachable. \<open>start_colors.py\<close> (C18--C23): the face count against a positional
  specification, the successful run, the two defects (the same file as input and output
  is destroyed, a missing output directory is reported as a missing input), that no
  other file is touched, and the command line. The command line and the file system
  again (C24--C29): an abbreviation of a long option gives the same run as the option
  (an equivalence proved by a congruence through the whole loop), the output stage
  succeeds on a normalised path whose ancestors are directories or absent (liveness of
  \<open>makedirs\<close> and the export), \<open>abspath\<close> returns normalised paths and is idempotent
  on them, \<open>start_colors.py -- x --\<close> hands \<open>open\<close> an empty list, without a \<open>--\<close>
  both of its arguments are strings, and \<open>normpath\<close> returns one of its three normal
  shapes, each of which it leaves unchanged (C29). The host-generic theorems are stated
  against the host's contract; their witnesses run them on the scripted host, including
  the hero scenario of the specification, where the code keeps the clip names
  \<open>Walk\<close> and \<open>Run\<close>.

  \<^bold>\<open>Plan.\<close> Next: the exact set of command lines of \<open>start_colors.py\<close> that give a
  non-string (a \<open>--\<close> token after the separator that becomes a positional's only
  string), and a run of \<open>_blender_main\<close> whose output directory is created from
  scratch.

  \<^bold>\<open>Not modelled.\<close> The FBX and glTF encoders and Blender's operators beyond their
  effect on the scene's membership, names, selection and bindings (meshes, materials,
  curves, view layers, the .001 suffix Blender adds to a clashing name, its name-length
  limit, the alphabetical order Blender keeps its ID collections in); Python's Unicode
  case mapping and \<open>repr\<close> beyond ASCII; the help and usage texts \<open>argparse\<close> prints;
  the text of a \<open>UnicodeDecodeError\<close>; file permissions. The Asset I/O Provider is
  modelled only through its contract (\<open>import_extends\<close>, \<open>host_ok\<close>) and the scripted
  host: the FBX importer and glTF exporter are Blender's C code, not part of this
  repository. The file system is a map from path strings, so paths are related only
  through the normalised form \<open>abspath\<close> gives them (C26).
\<close>

subsection \<open>The scenario of the specification\<close>

text \<open>
  A base file \<open>hero.fbx\<close> with an armature and a mesh, and two animation files
  \<open>walk.fbx\<close> and \<open>run.fbx\<close> that each hold an armature animated by one clip,
  \<open>Walk\<close> and \<open>Run\<close>; the working directory is \<open>/w\<close>.
\<close>

definition hero_files :: "path \<Rightarrow> fbx_file option" where
  "hero_files =
     [''/w/hero.fbx'' \<mapsto>
        \<lparr>ff_objects = [\<lparr>fo_name = ''Armature'', fo_type = ARMATURE, fo_animated = False\<rparr>,
                       \<lparr>fo_name = ''HeroMesh'', fo_type = MESH, fo_animated = False\<rparr>],
         ff_actions = []\<rparr>,
      ''/w/walk.fbx'' \<mapsto>
        \<lparr>ff_objects = [\<lparr>fo_name = ''Armature'', fo_type = ARMATURE, fo_animated = True\<rparr>],
         ff_actions = [''Walk'']\<rparr>,
      ''/w/run.fbx'' \<mapsto>
        \<lparr>ff_objects = [\<lparr>fo_name = ''Armature'', fo_type = ARMATURE, fo_animated = True\<rparr>],
         ff_actions = [''Run'']\<rparr>]"

definition hero_host :: host where
  "hero_host = fake_host ''/w'' hero_files"

text \<open>The file system before the run: the three inputs, in the directory \<open>/w\<close>.\<close>

definition hero_fs :: fs where
  "hero_fs = [''/'' \<mapsto> Dir, ''/w'' \<mapsto> Dir, ''/w/hero.fbx'' \<mapsto> Regular,
              ''/w/walk.fbx'' \<mapsto> Regular, ''/w/run.fbx'' \<mapsto> Regular]"

definition hero_world :: world where
  "hero_world = \<lparr>w_scene = empty_scene, w_fs = hero_fs, w_stdout = []\<rparr>"

text \<open>\<open>--model hero.fbx --anim walk.fbx --anim run.fbx --out hero_out\<close>.\<close>

definition hero_args :: cli_args where
  "hero_args = \<lparr>arg_model = ''hero.fbx'', arg_anim = [''walk.fbx'', ''run.fbx''], arg_out = ''hero_out''\<rparr>"

text \<open>A base file whose only object is a mesh.\<close>

definition noarm_host :: host where
  "noarm_host = fake_host ''/w''
     (hero_files(''/w/hero.fbx'' \<mapsto>
        \<lparr>ff_objects = [\<lparr>fo_name = ''HeroMesh'', fo_type = MESH, fo_animated = False\<rparr>],
         ff_actions = []\<rparr>))"

definition noarm_base :: scene where
  "noarm_base =
     \<lparr>objects = [\<lparr>ob_id = 1, ob_name = ''HeroMesh'', ob_type = MESH, ob_anim = None, ob_select = True\<rparr>],
      actions = []\<rparr>"

text \<open>The scene right after the base import, and the loop's state there.\<close>

definition hero_base :: scene where
  "hero_base =
     \<lparr>objects =
        [\<lparr>ob_id = 1, ob_name = ''Armature'', ob_type = ARMATURE, ob_anim = None, ob_select = True\<rparr>,
         \<lparr>ob_id = 2, ob_name = ''HeroMesh'', ob_type = MESH, ob_anim = None, ob_select = True\<rparr>],
      actions = []\<rparr>"

definition hero_walk_import :: scene where
  "hero_walk_import =
     \<lparr>objects =
        [\<lparr>ob_id = 1, ob_name = ''Armature'', ob_type = ARMATURE, ob_anim = None, ob_select = False\<rparr>,
         \<lparr>ob_id = 2, ob_name = ''HeroMesh'', ob_type = MESH, ob_anim = None, ob_select = False\<rparr>,
         \<lparr>ob_id = 4, ob_name = ''Armature'', ob_type = ARMATURE,
          ob_anim = Some \<lparr>ad_action = Some 3\<rparr>, ob_select = True\<rparr>],
      actions = [\<lparr>act_id = 3, act_name = ''Walk''\<rparr>]\<rparr>"

definition hero_after_walk :: merge_state where
  "hero_after_walk =
     \<lparr>ms_scene =
        \<lparr>objects =
           [\<lparr>ob_id = 1, ob_name = ''Armature'', ob_type = ARMATURE, ob_anim = None, ob_select = False\<rparr>,
            \<lparr>ob_id = 2, ob_name = ''HeroMesh'', ob_type = MESH, ob_anim = None, ob_select = False\<rparr>],
         actions = [\<lparr>act_id = 3, act_name = ''Walk''\<rparr>]\<rparr>,
      ms_existing = {3}\<rparr>"

text \<open>The loop's state after both sources.\<close>

definition hero_after_all :: merge_state where
  "hero_after_all =
     \<lparr>ms_scene =
        \<lparr>objects =
           [\<lparr>ob_id = 1, ob_name = ''Armature'', ob_type = ARMATURE, ob_anim = None, ob_select = False\<rparr>,
            \<lparr>ob_id = 2, ob_name = ''HeroMesh'', ob_type = MESH, ob_anim = None, ob_select = False\<rparr>],
         actions = [\<lparr>act_id = 3, act_name = ''Walk''\<rparr>, \<lparr>act_id = 4, act_name = ''Run''\<rparr>]\<rparr>,
      ms_existing = {3, 4}\<rparr>"

text \<open>Blender's command line up to the script's separator.\<close>

definition blender_prefix :: "string list" where
  "blender_prefix = [''blender'', ''-b'', ''-P'', ''scripts/fbx_to_glb.py'']"

text \<open>A working directory for \<open>start_colors.py\<close>: an OBJ file with two faces, one line
  ending in \<open>\r\n\<close>, and no directory \<open>nodir\<close>.\<close>

definition obj_text :: string where
  "obj_text = ''v 0 0 0'' @ [CHR 0x0A] @ ''f 1 2 3'' @ [CHR 0x0D, CHR 0x0A] @ ''vf 1'' @ [CHR 0x0A] @ ''f 3 2 1''"

definition obj_fs :: fs where
  "obj_fs = [''/'' \<mapsto> Dir, ''/w'' \<mapsto> Dir, ''/w/a.obj'' \<mapsto> Text obj_text]"

subsection \<open>Evaluations of the scenario\<close>

lemma hero_host_ok: "host_ok hero_host"
  by (simp add: hero_host_def fake_host_ok)

lemma hero_base_wf: "wf_scene hero_base"
  by (simp add: hero_base_def wf_scene_def)

lemma hero_merge_walk:
  "merge_one hero_host ''/w/walk.fbx'' \<lparr>ms_scene = hero_base, ms_existing = {}\<rparr> = Inr hero_after_walk"
  by code_simp

lemma hero_import_walk: "h_import hero_host ''/w/walk.fbx'' hero_base = Some hero_walk_import"
  by code_simp

theorem merge_one_restores_objects_witness:
  "host_ok hero_host \<and> wf_scene hero_base \<and>
   merge_one hero_host ''/w/walk.fbx'' \<lparr>ms_scene = hero_base, ms_existing = {}\<rparr> = Inr hero_after_walk \<and>
   map unsel (objects (ms_scene hero_after_walk)) = map unsel (objects hero_base)"
  using Driver.merge_one_restores_objects[OF hero_host_ok, of "\<lparr>ms_scene = hero_base, ms_existing = {}\<rparr>"]
    hero_host_ok hero_base_wf hero_merge_walk
  by simp

theorem merge_one_clips_witness:
  "host_ok hero_host \<and> wf_scene hero_base \<and>
   h_import hero_host ''/w/walk.fbx'' hero_base = Some hero_walk_import \<and>
   (\<exists>st'. merge_one hero_host ''/w/walk.fbx'' \<lparr>ms_scene = hero_base, ms_existing = {}\<rparr> = Inr st' \<and>
      length (actions (ms_scene st')) = 1)"
proof -
  have "\<exists>st'. merge_one hero_host ''/w/walk.fbx'' \<lparr>ms_scene = hero_base, ms_existing = {}\<rparr> = Inr st' \<and>
      length (actions (ms_scene st')) =
        length (actions hero_base) +
        length (filter (\<lambda>a. act_id a \<notin> action_ids hero_base) (actions hero_walk_import))"
    using Driver.merge_one_clips[OF hero_host_ok, of "\<lparr>ms_scene = hero_base, ms_existing = {}\<rparr>"]
      hero_base_wf hero_import_walk by fastforce
  then show ?thesis
    using hero_host_ok hero_base_wf hero_import_walk
    by (simp add: hero_base_def hero_walk_import_def action_ids_def)
qed

lemma hero_merge_all:
  "merge_anims hero_host [''/w/walk.fbx'', ''/w/run.fbx''] \<lparr>ms_scene = hero_base, ms_existing = action_ids hero_base\<rparr> =
     Inr hero_after_all"
  by code_simp

lemma hero_run_ok: "fst (blender_main hero_host hero_args hero_world) = None"
  by code_simp

lemma hero_abspaths:
  "abspath ''/w'' ''hero.fbx'' = ''/w/hero.fbx''"
  "abspath ''/w'' ''walk.fbx'' = ''/w/walk.fbx''"
  "abspath ''/w'' ''run.fbx'' = ''/w/run.fbx''"
  by code_simp+

lemma noarm_import: "h_import noarm_host ''/w/hero.fbx'' empty_scene = Some noarm_base"
  by code_simp

lemma hero_makedirs_some: "makedirs hero_fs ''/w/out'' \<noteq> None"
  by code_simp

lemma hero_makedirs_ok:
  "makedirs hero_fs ''/w/out'' = Some (the (makedirs hero_fs ''/w/out''))"
  using hero_makedirs_some by simp

subsection \<open>Witnesses of the component theorems\<close>

theorem merge_anims_result_witness:
  "host_ok hero_host \<and> wf_scene hero_base \<and>
   merge_anims hero_host [''/w/walk.fbx'', ''/w/run.fbx''] \<lparr>ms_scene = hero_base, ms_existing = action_ids hero_base\<rparr> =
     Inr hero_after_all \<and>
   map unsel (objects (ms_scene hero_after_all)) = map unsel (objects hero_base) \<and>
   ms_existing hero_after_all = action_ids (ms_scene hero_after_all)"
  using Driver.merge_anims_result[OF hero_host_ok hero_base_wf hero_merge_all] hero_host_ok hero_base_wf hero_merge_all
  by simp

theorem rename_new_actions_order_witness:
  "set [3::nat, 4] = set [4, 3] \<and>
   rename_new_actions ''walk'' [3, 4] (ms_scene hero_after_all) =
   rename_new_actions ''walk'' [4, 3] (ms_scene hero_after_all)"
  using Disambiguate.rename_new_actions_order[of "[3, 4]" "[4, 3]" "''walk''" "ms_scene hero_after_all"]
  by auto

theorem merge_one_names_prefixed_witness:
  "host_ok hero_host \<and> wf_scene hero_base \<and>
   merge_one hero_host ''/w/walk.fbx'' \<lparr>ms_scene = hero_base, ms_existing = {}\<rparr> = Inr hero_after_walk \<and>
   startswith (py_lower (act_name (hd (actions (ms_scene hero_after_walk))))) (py_lower (file_stem ''/w/walk.fbx''))"
proof -
  have "hd (actions (ms_scene hero_after_walk)) \<in> set (actions (ms_scene hero_after_walk))"
    "act_id (hd (actions (ms_scene hero_after_walk))) \<notin> action_ids hero_base"
    by (simp_all add: hero_after_walk_def hero_base_def action_ids_def)
  then show ?thesis
    using Driver.merge_one_names_prefixed[OF hero_host_ok _ hero_merge_walk] hero_host_ok hero_base_wf hero_merge_walk
    by simp
qed

theorem blender_main_fail_fast_witness:
  "(w_fs (hero_world\<lparr>w_fs := hero_fs(''/w/run.fbx'' := None)\<rparr>) (abspath (h_cwd hero_host) (arg_model hero_args)) = None \<or>
    (\<exists>a\<in>set (arg_anim hero_args).
       w_fs (hero_world\<lparr>w_fs := hero_fs(''/w/run.fbx'' := None)\<rparr>) (abspath (h_cwd hero_host) a) = None)) \<and>
   (\<exists>p. (fst (blender_main hero_host hero_args (hero_world\<lparr>w_fs := hero_fs(''/w/run.fbx'' := None)\<rparr>)) = Some (MissingModel p) \<or>
         fst (blender_main hero_host hero_args (hero_world\<lparr>w_fs := hero_fs(''/w/run.fbx'' := None)\<rparr>)) = Some (MissingAnim p)))"
proof -
  have h: "w_fs (hero_world\<lparr>w_fs := hero_fs(''/w/run.fbx'' := None)\<rparr>) (abspath (h_cwd hero_host) (arg_model hero_args)) = None \<or>
    (\<exists>a\<in>set (arg_anim hero_args).
       w_fs (hero_world\<lparr>w_fs := hero_fs(''/w/run.fbx'' := None)\<rparr>) (abspath (h_cwd hero_host) a) = None)"
    using hero_abspaths by (simp add: hero_args_def hero_host_def fake_host_def)
  show ?thesis using h Driver.blender_main_fail_fast[OF h] by blast
qed

theorem blender_main_success_witness:
  "host_ok hero_host \<and>
   blender_main hero_host hero_args hero_world = (None, snd (blender_main hero_host hero_args hero_world)) \<and>
   (\<exists>s0. h_import hero_host (abspath (h_cwd hero_host) (arg_model hero_args)) empty_scene = Some s0 \<and>
     map ob_key (objects (w_scene (snd (blender_main hero_host hero_args hero_world)))) = map ob_key (objects s0))"
proof -
  have run: "blender_main hero_host hero_args hero_world = (None, snd (blender_main hero_host hero_args hero_world))"
    using hero_run_ok by (metis prod.collapse)
  show ?thesis using Driver.blender_main_success[OF hero_host_ok run] hero_host_ok run by blast
qed

theorem finalize_binding_spec_witness:
  "1 \<in> object_ids (ms_scene hero_after_all) \<and>
   (\<exists>ob ob' s'. finalize_binding 1 (ms_scene hero_after_all) = Inr s' \<and>
      find_object 1 (ms_scene hero_after_all) = Some ob \<and> find_object 1 s' = Some ob' \<and>
      bound_action ob' = (case bound_action ob of None \<Rightarrow> first_action (ms_scene hero_after_all) | Some a \<Rightarrow> Some a))"
proof -
  have h: "1 \<in> object_ids (ms_scene hero_after_all)" by (simp add: hero_after_all_def object_ids_def)
  show ?thesis using Binding.finalize_binding_spec[OF h] h by blast
qed

theorem file_stem_spec_witness:
  "CHR ''/'' \<notin> set ''walk'' \<and> CHR ''/'' \<notin> set ''fbx'' \<and> CHR ''.'' \<notin> set ''fbx'' \<and>
   file_stem (''/w'' @ CHR ''/'' # ''walk'' @ CHR ''.'' # ''fbx'') = ''walk''"
  using Disambiguate.file_stem_spec[of "''walk''" "''fbx''" "''/w''"] by simp

theorem file_stem_dotfile_witness:
  "CHR ''/'' \<notin> set ''fbx'' \<and> CHR ''.'' \<notin> set ''fbx'' \<and>
   file_stem (''/w'' @ CHR ''/'' # ''.'' @ CHR ''.'' # ''fbx'') = ''.'' @ CHR ''.'' # ''fbx''"
  using Disambiguate.file_stem_dotfile[of "''.''" "''fbx''" "''/w''"] by simp

theorem makedirs_spec_witness:
  "makedirs hero_fs ''/w/out'' = Some (the (makedirs hero_fs ''/w/out'')) \<and>
   the (makedirs hero_fs ''/w/out'') ''/w/hero.fbx'' = Some Regular \<and>
   the (makedirs hero_fs ''/w/out'') ''/w/out'' = Some Dir"
proof -
  note M = Files.makedirs_spec[OF hero_makedirs_ok]
  have "hero_fs ''/w/hero.fbx'' = Some Regular" by (simp add: hero_fs_def)
  moreover have "split_tail ''/w/out'' \<noteq> ''.''" by code_simp
  ultimately show ?thesis using M hero_makedirs_ok by simp
qed

theorem normpath_idem_witness:
  "rel_norm [''..'', ''x''] \<and> list_all plain_comp [''w''] \<and>
   normpath (join_with ''/'' [''..'', ''x'']) = join_with ''/'' [''..'', ''x''] \<and>
   normpath (abs_path [''w'']) = abs_path [''w''] \<and>
   normpath (''//'' @ join_with ''/'' [''w'']) = ''//'' @ join_with ''/'' [''w''] \<and>
   normpath (normpath ''a//b/../c'') = normpath ''a//b/../c''"
proof -
  have r: "rel_norm [''..'', ''x'']" unfolding rel_norm_def
    by (intro exI[of _ 1] exI[of _ "[''x'']"]) (simp add: plain_comp_def)
  have p: "list_all plain_comp [''w'']" by (simp add: plain_comp_def)
  note n = Files.normpath_idem[of "''a//b/../c''"]
  have "normpath (join_with ''/'' [''..'', ''x'']) = join_with ''/'' [''..'', ''x'']"
    using n r by blast
  moreover have "normpath (abs_path [''w'']) = abs_path [''w''] \<and>
      normpath (''//'' @ join_with ''/'' [''w'']) = ''//'' @ join_with ''/'' [''w'']"
    using n p by blast
  ultimately show ?thesis using n r p by blast
qed

theorem write_output_succeeds_witness:
  "\<exists>fs'. write_output (\<lambda>_ _ _. True) (abs_path [''w'', ''out'', ''sub'', ''hero.glb'']) empty_scene hero_fs = Inr fs' \<and>
     fs' (abs_path [''w'', ''out'', ''sub'', ''hero.glb'']) = Some (Glb gltf_settings empty_scene) \<and>
     fs' (abs_path [''w'', ''out'', ''sub'']) = Some Dir"
proof -
  have r: "hero_fs ''/'' = Some Dir" by (simp add: hero_fs_def)
  have p: "list_all plain_comp ([''w'', ''out'', ''sub''] @ [''hero.glb''])" by code_simp
  have a: "list_all (\<lambda>p. hero_fs p = None \<or> hero_fs p = Some Dir) (ancestors [''w'', ''out'', ''sub''])"
    by code_simp
  show ?thesis
    using Files.write_output_succeeds[of hero_fs "[''w'', ''out'', ''sub'']" "''hero.glb''" "\<lambda>_ _ _. True" empty_scene, OF r p a]
    by simp
qed

theorem armature_never_removed_witness:
  "host_ok hero_host \<and> fst (blender_main hero_host hero_args hero_world) \<noteq> Some ArmatureRemoved"
  using Driver.armature_never_removed[OF hero_host_ok] hero_host_ok by blast

theorem blender_main_no_armature_witness:
  "w_fs hero_world (abspath (h_cwd noarm_host) (arg_model hero_args)) \<noteq> None \<and>
   h_import noarm_host (abspath (h_cwd noarm_host) (arg_model hero_args)) empty_scene = Some noarm_base \<and>
   armatures noarm_base = [] \<and>
   blender_main noarm_host hero_args hero_world = (Some NoArmature, hero_world\<lparr>w_scene := noarm_base\<rparr>)"
proof -
  have p: "h_cwd noarm_host = ''/w''" "arg_model hero_args = ''hero.fbx''"
    "arg_anim hero_args = [''walk.fbx'', ''run.fbx'']"
    by (simp_all add: noarm_host_def fake_host_def hero_args_def)
  have h1: "w_fs hero_world (abspath (h_cwd noarm_host) (arg_model hero_args)) \<noteq> None"
    using hero_abspaths by (simp add: p hero_world_def hero_fs_def)
  have h2: "\<forall>a\<in>set (arg_anim hero_args). w_fs hero_world (abspath (h_cwd noarm_host) a) \<noteq> None"
    using hero_abspaths by (simp add: p hero_world_def hero_fs_def)
  have h3: "h_import noarm_host (abspath (h_cwd noarm_host) (arg_model hero_args)) empty_scene = Some noarm_base"
    using hero_abspaths noarm_import by (simp add: p)
  have h4: "armatures noarm_base = []" by (simp add: noarm_base_def armatures_def)
  show ?thesis using Driver.blender_main_no_armature[OF h1 h2 h3 h4] h1 h2 h3 h4 by blast
qed

subsection \<open>The command line\<close>

theorem fbx_main_render_witness:
  "''--'' \<notin> set blender_prefix \<and>
   fst (fbx_main hero_host (blender_prefix @ ''--'' # render_eq hero_args) hero_world) = None"
proof -
  have p: "''--'' \<notin> set blender_prefix" by (simp add: blender_prefix_def)
  show ?thesis using Cli.fbx_main_render[OF p, of hero_host hero_args hero_world] hero_run_ok p by simp
qed

theorem fbx_main_abbrev_witness:
  "''--'' \<notin> set blender_prefix \<and> ''--'' \<notin> set ([] :: string list) \<and>
   ''--model'' \<in> set [''--model'', ''--anim'', ''--out'', ''--help''] \<and>
   startswith ''--model'' ''--mo'' \<and> 3 \<le> length ''--mo'' \<and>
   fbx_main hero_host (blender_prefix @ ''--'' # [''--mo'', ''hero.fbx'', ''--out'', ''hero_out'']) hero_world =
   fbx_main hero_host (blender_prefix @ ''--'' # [''--model'', ''hero.fbx'', ''--out'', ''hero_out'']) hero_world"
proof -
  have p: "''--'' \<notin> set blender_prefix" by (simp add: blender_prefix_def)
  show ?thesis
    using Cli.fbx_main_abbrev[OF p, of "[]" "''--model''" "''--mo''" hero_host "[''hero.fbx'', ''--out'', ''hero_out'']" hero_world] p
    by (simp add: startswith_def)
qed

subsection \<open>start_colors.py\<close>

lemma obj_paths:
  "abspath ''/w'' ''a.obj'' = ''/w/a.obj''" "abspath ''/w'' ''b.txt'' = ''/w/b.txt''"
  "abspath ''/w'' ''nodir/b.txt'' = ''/w/nodir/b.txt''"
  by code_simp+

lemma obj_dirs:
  "dir_error obj_fs (dirname ''/w/a.obj'') = None" "dir_error obj_fs (dirname ''/w/b.txt'') = None"
  "dir_error obj_fs (dirname ''/w/nodir/b.txt'') = Some ENOENT"
  by code_simp+

lemma obj_face_count: "face_count obj_text = 2"
  by code_simp

theorem process_obj_file_ok_witness:
  "process_obj_file ''/w'' ''a.obj'' ''b.txt'' obj_fs =
   (obj_fs(''/w/b.txt'' \<mapsto> Text (concat (replicate 2 face_line))), Processed 2 ''b.txt'')"
proof -
  have "obj_fs ''/w/a.obj'' = Some (Text obj_text)" "obj_fs ''/w/b.txt'' \<noteq> Some Dir"
    by (simp_all add: obj_fs_def)
  then show ?thesis
    using StartColors.process_obj_file_ok[of obj_fs "''/w''" "''a.obj''" obj_text "''b.txt''"]
      obj_paths obj_dirs obj_face_count by simp
qed

theorem same_file_truncated_witness:
  "process_obj_file ''/w'' ''a.obj'' ''a.obj'' obj_fs = (obj_fs(''/w/a.obj'' \<mapsto> Text []), Processed 0 ''a.obj'')"
proof -
  have "obj_fs ''/w/a.obj'' = Some (Text obj_text)" by (simp add: obj_fs_def)
  then show ?thesis
    using StartColors.same_file_truncated[of "''/w''" "''a.obj''" "''a.obj''" obj_fs obj_text]
      obj_paths obj_dirs by simp
qed

theorem missing_output_dir_misreported_witness:
  "process_obj_file ''/w'' ''a.obj'' ''nodir/b.txt'' obj_fs = (obj_fs, NotExist ''a.obj'')"
proof -
  have "obj_fs ''/w/a.obj'' = Some (Text obj_text)" by (simp add: obj_fs_def)
  then show ?thesis
    using StartColors.missing_output_dir_misreported[of obj_fs "''/w''" "''a.obj''" obj_text "''nodir/b.txt''"]
      obj_paths obj_dirs by simp
qed

theorem process_obj_file_only_output_witness:
  "fst (process_obj_file ''/w'' ''a.obj'' ''b.txt'' obj_fs) ''/w/a.obj'' = Some (Text obj_text)"
proof -
  have "''/w/a.obj'' \<noteq> abspath ''/w'' ''b.txt''" using obj_paths by simp
  then show ?thesis
    using StartColors.process_obj_file_only_output[of "''/w/a.obj''" "''/w''" "''b.txt''" "''a.obj''" obj_fs]
    by (simp add: obj_fs_def)
qed

theorem sc_main_two_args_witness:
  "sc_main ''/w'' [''a.obj'', ''b.txt''] obj_fs =
   (ScDone, fst (process_obj_file ''/w'' ''a.obj'' ''b.txt'' obj_fs),
    [snd (process_obj_file ''/w'' ''a.obj'' ''b.txt'' obj_fs)])"
  using StartColors.sc_main_two_args[of "''a.obj''" "''b.txt''" "''/w''" obj_fs] by simp

theorem sc_main_no_type_error_witness:
  "ErrorOccurred (ArgTypeErr ''list'') \<notin> set (snd (snd (sc_main ''/w'' [''a.obj'', ''b.txt''] obj_fs)))"
proof -
  have "''--'' \<notin> set [''a.obj'', ''b.txt'']" by simp
  then show ?thesis by (rule StartColors.sc_main_no_type_error)
qed

theorem sc_main_dash_output_witness:
  "sc_main ''/w'' [''--'', ''a.obj'', ''--''] obj_fs = (ScDone, obj_fs, [ErrorOccurred (ArgTypeErr ''list'')])"
proof -
  have "open_read obj_fs (abspath ''/w'' ''a.obj'') = Inr (Text obj_text)"
    using obj_paths obj_dirs by (simp add: open_read_def obj_fs_def)
  then show ?thesis using StartColors.sc_main_dash_output[of "''/w''" "''a.obj''" obj_fs] by simp
qed

subsection \<open>Paths\<close>

theorem abspath_normal_witness:
  "abspath (abs_path [''w'']) ''out/../b/./c.glb'' = abs_path [''w'', ''b'', ''c.glb''] \<and>
   abspath (abs_path [''w'']) (abspath (abs_path [''w'']) ''out/../b/./c.glb'') =
     abspath (abs_path [''w'']) ''out/../b/./c.glb''"
proof -
  have p: "list_all plain_comp [''w'']" by code_simp
  have s: "\<not> startswith ''out/../b/./c.glb'' ''//''" by code_simp
  have e: "abspath (abs_path [''w'']) ''out/../b/./c.glb'' = abs_path [''w'', ''b'', ''c.glb'']" by code_simp
  show ?thesis using Files.abspath_normal[OF p s] e by auto
qed

end
